(* ===== verification/Prelude.thy ===== *)
theory Prelude
  imports Main "HOL-Library.Word" "HOL-Library.List_Lexorder" "HOL-Library.Char_ord"
begin

text \<open>
  Shared vocabulary of the development. Go's \<open>byte\<close> is an 8-bit word; the three
  representations of an identifier (16 raw bytes, 32 hexadecimal digits, 22 base-57 digits)
  are all positional numerals of one 128-bit number, so this theory holds the generic
  machinery for numerals in a base \<open>b\<close>: the value of a most-significant-first digit list
  (\<open>digits_val\<close>, the loop \<open>n = n * b + d\<close> of a decoder), the fixed-width digit list of a
  number (\<open>to_digits\<close>), the least-significant-first division loop of an encoder
  (\<open>lsb_digits\<close>), their round trips, and the fact that lexicographic order of
  equal-length digit lists is numeric order. Big-endian byte strings (\<open>be_nat\<close>,
  \<open>nat_to_be\<close>) are the base-256 instance.
\<close>

type_synonym byte = "8 word"

unbundle bit_operations_syntax

named_theorems numeral_simps "evaluation rules of the positional numeral functions"

subsection \<open>Errors\<close>

text \<open>
  Go reports failures as values of its \<open>error\<close> interface. Every error value any
  component of the program can return is a constructor here, named after the message the
  library builds; \<open>error_kind\<close> classifies them into the kinds of spec section 7.
\<close>

datatype error =
    InvalidLength nat            \<comment> \<open>\<open>uuid.Parse\<close>: \<open>invalidLengthError{len(s)}\<close>\<close>
  | InvalidUrnPrefix string      \<comment> \<open>\<open>uuid.Parse\<close>: \<open>"invalid urn prefix: %q"\<close>\<close>
  | InvalidFormat                \<comment> \<open>\<open>uuid.Parse\<close>: \<open>"invalid UUID format"\<close>\<close>
  | InvalidByteCount nat         \<comment> \<open>\<open>uuid.FromBytes\<close>: \<open>"invalid UUID (got %d bytes)"\<close>\<close>
  | ScanFailed error             \<comment> \<open>\<open>uuid.Scan\<close>: \<open>"Scan: %v"\<close> around a parse error\<close>
  | UnsupportedSourceType string \<comment> \<open>\<open>uuid.Scan\<close>: \<open>"Scan: unable to scan type %T into UUID"\<close>\<close>
  | InvalidShortChar char        \<comment> \<open>shortuuid: a character outside the alphabet\<close>
  | ShortOverflow                \<comment> \<open>shortuuid: the decoded value does not fit in 128 bits\<close>
  | EmptyShortString             \<comment> \<open>shortuuid: the empty string\<close>
  | UnmarshalTypeError string    \<comment> \<open>\<open>encoding/json\<close>: a JSON value of the named kind into a Go value\<close>
  | MarshalerError error         \<comment> \<open>\<open>encoding/json\<close>: a \<open>MarshalJSON\<close> method failed\<close>
  | RandomReadFailed             \<comment> \<open>\<open>uuid.NewRandom\<close>: reading the random source failed\<close>
  | JsonSyntaxError              \<comment> \<open>\<open>encoding/json\<close>: \<open>SyntaxError\<close>, the input is not JSON text\<close>

datatype err_kind =
  KInvalidLength | KParseError | KTypeMismatch | KUnsupportedSourceType | KRandomSourceError

fun error_kind :: "error \<Rightarrow> err_kind" where
  "error_kind (InvalidByteCount n) = KInvalidLength"
| "error_kind (ScanFailed e) = error_kind e"
| "error_kind (UnsupportedSourceType t) = KUnsupportedSourceType"
| "error_kind (UnmarshalTypeError t) = KTypeMismatch"
| "error_kind (MarshalerError e) = error_kind e"
| "error_kind RandomReadFailed = KRandomSourceError"
| "error_kind e = KParseError"

subsection \<open>Positional numerals\<close>

fun digits_val :: "nat \<Rightarrow> nat \<Rightarrow> nat list \<Rightarrow> nat" where
  "digits_val b n [] = n"
| "digits_val b n (d # ds) = digits_val b (n * b + d) ds"

fun to_digits :: "nat \<Rightarrow> nat \<Rightarrow> nat \<Rightarrow> nat list" where
  "to_digits b 0 n = []"
| "to_digits b (Suc k) n = to_digits b k (n div b) @ [n mod b]"

function lsb_digits :: "nat \<Rightarrow> nat \<Rightarrow> nat list" where
  "lsb_digits b n = (if n = 0 \<or> b < 2 then [] else n mod b # lsb_digits b (n div b))"
  by pat_completeness auto
termination
  by (relation "measure (\<lambda>(b, n). n)") auto

declare lsb_digits.simps [simp del]

definition all_below :: "nat \<Rightarrow> nat list \<Rightarrow> bool" where
  "all_below b ds \<longleftrightarrow> list_all (\<lambda>d. d < b) ds"

text \<open>Big-endian byte strings: the base-256 numerals.\<close>

definition be_nat :: "byte list \<Rightarrow> nat" where
  "be_nat bs = digits_val 256 0 (map unat bs)"

definition nat_to_be :: "nat \<Rightarrow> nat \<Rightarrow> byte list" where
  "nat_to_be k n = map of_nat (to_digits 256 k n)"

text \<open>
  A Go function that panics does not return: \<open>Panics e\<close> is the panic with value \<open>e\<close>,
  \<open>Returns x\<close> a normal return.
\<close>

datatype 'a outcome = Returns 'a | Panics error

subsection \<open>Lemmas on numerals\<close>

lemma all_below_simps [simp]:
  "all_below b [] = True"
  "all_below b (d # ds) \<longleftrightarrow> d < b \<and> all_below b ds"
  "all_below b (ds @ es) \<longleftrightarrow> all_below b ds \<and> all_below b es"
  by (simp_all add: all_below_def)

lemma digits_val_acc:
  "digits_val b n ds = n * b ^ length ds + digits_val b 0 ds"
proof (induction ds arbitrary: n)
  case Nil
  then show ?case by simp
next
  case (Cons d ds)
  have "digits_val b (n * b + d) ds = (n * b + d) * b ^ length ds + digits_val b 0 ds"
    by (rule Cons.IH)
  moreover have "digits_val b d ds = d * b ^ length ds + digits_val b 0 ds"
    by (rule Cons.IH)
  ultimately show ?case by (simp add: algebra_simps)
qed

lemma digits_val_Cons [numeral_simps]:
  "digits_val b 0 (d # ds) = d * b ^ length ds + digits_val b 0 ds"
  using digits_val_acc [of b d ds] by simp

lemma digits_val_snoc_acc:
  "digits_val b n (ds @ [d]) = digits_val b n ds * b + d"
  by (induction ds arbitrary: n) simp_all

lemma digits_val_snoc [numeral_simps]:
  "digits_val b 0 (ds @ [d]) = digits_val b 0 ds * b + d"
  by (rule digits_val_snoc_acc)

lemma digits_val_bound:
  "all_below b ds \<Longrightarrow> digits_val b 0 ds < b ^ length ds"
proof (induction ds rule: rev_induct)
  case Nil
  then show ?case by simp
next
  case (snoc d ds)
  then have le: "digits_val b 0 ds + 1 \<le> b ^ length ds" and "d < b" by simp_all
  then have "digits_val b 0 ds * b + d < (digits_val b 0 ds + 1) * b" by simp
  also have "\<dots> \<le> b ^ length ds * b"
    using le by (rule mult_right_mono) simp
  finally have "digits_val b 0 ds * b + d < b ^ length ds * b" .
  then show ?case by (simp only: digits_val_snoc length_append_singleton power_Suc2)
qed

lemma length_to_digits [simp]: "length (to_digits b k n) = k"
  by (induction k arbitrary: n) simp_all

lemma to_digits_numeral [numeral_simps]:
  "to_digits b (numeral k) n = to_digits b (pred_numeral k) (n div b) @ [n mod b]"
  by (simp add: numeral_eq_Suc)

lemma replicate_numeral_Cons [numeral_simps]:
  "replicate (numeral k) x = x # replicate (pred_numeral k) x"
  by (simp add: numeral_eq_Suc)

lemma to_digits_below: "0 < b \<Longrightarrow> all_below b (to_digits b k n)"
  by (induction k arbitrary: n) simp_all

lemma digits_val_to_digits: "digits_val b 0 (to_digits b k n) = n mod b ^ k"
proof (induction k arbitrary: n)
  case 0
  then show ?case by simp
next
  case (Suc k)
  have "digits_val b 0 (to_digits b (Suc k) n) = (n div b) mod b ^ k * b + n mod b"
    by (simp add: Suc.IH digits_val_snoc)
  also have "\<dots> = n mod (b * b ^ k)"
    by (simp add: mod_mult2_eq ac_simps)
  finally show ?case by simp
qed

lemma to_digits_digits_val:
  "all_below b ds \<Longrightarrow> to_digits b (length ds) (digits_val b 0 ds) = ds"
proof (induction ds rule: rev_induct)
  case Nil
  then show ?case by simp
next
  case (snoc d ds)
  then have "d < b" and "to_digits b (length ds) (digits_val b 0 ds) = ds" by simp_all
  then show ?case by (simp add: digits_val_snoc)
qed

lemma to_digits_zero: "to_digits b k 0 = replicate k 0"
  by (induction k) (simp_all add: replicate_append_same [symmetric])

text \<open>
  The division loop of an encoder emits the least significant digit first; padded in
  front with zeros and reversed, it is the fixed-width numeral of a number below \<open>b ^ k\<close>.
\<close>

lemma lsb_digits_length_bound:
  assumes "2 \<le> b" "n < b ^ k"
  shows "length (lsb_digits b n) \<le> k"
  using assms
proof (induction b n arbitrary: k rule: lsb_digits.induct)
  case (1 b n)
  show ?case
  proof (cases "n = 0")
    case True
    then show ?thesis by (simp add: lsb_digits.simps)
  next
    case False
    with "1.prems" obtain k' where k: "k = Suc k'" by (cases k) auto
    with "1.prems" have "n div b < b ^ k'" by (simp add: div_less_iff_less_mult ac_simps)
    with "1.IH" [of k'] False "1.prems"(1) show ?thesis
      by (simp add: lsb_digits.simps [of b n] k)
  qed
qed

lemma pad_rev_lsb_digits:
  assumes "2 \<le> b" "n < b ^ k"
  shows "replicate (k - length (lsb_digits b n)) 0 @ rev (lsb_digits b n) = to_digits b k n"
  using assms
proof (induction k arbitrary: n)
  case 0
  then show ?case by (simp add: lsb_digits.simps)
next
  case (Suc k)
  show ?case
  proof (cases "n = 0")
    case True
    then show ?thesis by (simp add: lsb_digits.simps to_digits_zero)
  next
    case False
    with Suc.prems have n_div: "n div b < b ^ k" by (simp add: div_less_iff_less_mult ac_simps)
    from False Suc.prems(1)
    have "lsb_digits b n = n mod b # lsb_digits b (n div b)"
      by (simp add: lsb_digits.simps [of b n])
    with Suc.IH [OF Suc.prems(1) n_div] show ?thesis
      using lsb_digits_length_bound [OF Suc.prems(1) n_div] by (simp add: Suc_diff_le)
  qed
qed

text \<open>
  The loop runs once per digit: a number of at least \<open>b ^ k\<close> takes more than \<open>k\<close>
  rounds, one below \<open>b ^ k\<close> at most \<open>k\<close> (\<open>lsb_digits_length_bound\<close>).
\<close>

lemma lsb_digits_length_ge: "2 \<le> b \<Longrightarrow> b ^ k \<le> n \<Longrightarrow> k < length (lsb_digits b n)"
proof (induction k arbitrary: n)
  case 0
  then show ?case by (simp add: lsb_digits.simps)
next
  case (Suc k)
  then have "b ^ k \<le> n div b" by (simp add: less_eq_div_iff_mult_less_eq mult.commute)
  then have "k < length (lsb_digits b (n div b))" using Suc by blast
  moreover have "0 < b ^ Suc k" using Suc.prems(1) by simp
  then have "n \<noteq> 0" using Suc.prems(2) by linarith
  ultimately show ?case using Suc.prems by (simp add: lsb_digits.simps)
qed

subsection \<open>Numerals of any length\<close>

text \<open>
  A decoder reads digit lists of any length; a value below \<open>b ^ k\<close> has the fixed-width
  numeral obtained by padding a short list with zeros in front, or by dropping the leading
  digits of a long one, which are then all zero.
\<close>

lemma digits_val_append: "digits_val b n (xs @ ys) = digits_val b (digits_val b n xs) ys"
  by (induction xs arbitrary: n) simp_all

lemma digits_val_zero_iff: "0 < b \<Longrightarrow> digits_val b 0 ds = 0 \<longleftrightarrow> set ds \<subseteq> {0}"
proof (induction ds)
  case Nil
  then show ?case by simp
next
  case (Cons d ds)
  then show ?case unfolding digits_val_Cons by simp
qed

lemma digits_val_replicate_zero: "digits_val b 0 (replicate m 0 @ ds) = digits_val b 0 ds"
  by (induction m) (simp_all add: digits_val_Cons)

lemma all_below_replicate_zero: "0 < b \<Longrightarrow> all_below b (replicate m 0)"
  by (induction m) simp_all

lemma to_digits_normal:
  assumes b: "0 < b" and below: "all_below b ds" and lt: "digits_val b 0 ds < b ^ k"
  shows "to_digits b k (digits_val b 0 ds) = drop (length ds) (replicate k 0) @ drop (length ds - k) ds \<and>
         set (take (length ds - k) ds) \<subseteq> {0}"
proof (cases "length ds \<le> k")
  case True
  let ?ds = "replicate (k - length ds) 0 @ ds"
  have "to_digits b (length ?ds) (digits_val b 0 ?ds) = ?ds"
    using below b by (intro to_digits_digits_val) (simp add: all_below_replicate_zero)
  then show ?thesis using True by (simp add: digits_val_replicate_zero)
next
  case False
  let ?p = "take (length ds - k) ds" and ?q = "drop (length ds - k) ds"
  have lq: "length ?q = k" using False by simp
  have bq: "all_below b ?q" using below all_below_simps(3) [of b ?p ?q] by simp
  have split: "digits_val b 0 ds = digits_val b 0 ?p * b ^ k + digits_val b 0 ?q"
    using digits_val_append [of b 0 ?p ?q] digits_val_acc [of b "digits_val b 0 ?p" ?q] lq by simp
  have p0: "digits_val b 0 ?p = 0"
    using lt unfolding split by (cases "digits_val b 0 ?p") auto
  then have "digits_val b 0 ds = digits_val b 0 ?q" using split by simp
  moreover have "to_digits b k (digits_val b 0 ?q) = ?q"
    using to_digits_digits_val [OF bq] lq by simp
  ultimately show ?thesis using False p0 b by (simp add: digits_val_zero_iff)
qed

subsection \<open>Lexicographic order of digit lists\<close>

text \<open>
  Strings and byte arrays compare lexicographically (\<open>List_Lexorder\<close>). For digit lists
  of the same length this is the order of their values.
\<close>

lemma digits_val_less_iff:
  assumes "length xs = length ys" "all_below b xs" "all_below b ys"
  shows "xs < ys \<longleftrightarrow> digits_val b 0 xs < digits_val b 0 ys"
  using assms
proof (induction xs ys rule: list_induct2)
  case Nil
  then show ?case by simp
next
  case (Cons x xs y ys)
  let ?k = "length xs"
  from Cons.prems have xb: "x < b" "y < b" and
    vx: "digits_val b 0 xs < b ^ ?k" and vy: "digits_val b 0 ys < b ^ ?k"
    using digits_val_bound [of b xs] digits_val_bound [of b ys] Cons.hyps by simp_all
  have lt: "p * b ^ ?k + u < q * b ^ ?k + v" if "p < q" "u < b ^ ?k" for p q u v
  proof -
    have "p * b ^ ?k + u < (p + 1) * b ^ ?k" using that by simp
    also have "\<dots> \<le> q * b ^ ?k" using that by (intro mult_right_mono) simp_all
    finally show ?thesis by simp
  qed
  have "x # xs < y # ys \<longleftrightarrow> x < y \<or> (x = y \<and> xs < ys)"
    by (simp add: Cons_less_Cons)
  also have "\<dots> \<longleftrightarrow> x * b ^ ?k + digits_val b 0 xs < y * b ^ ?k + digits_val b 0 ys"
  proof (cases x y rule: linorder_cases)
    case less
    then show ?thesis using lt [of x y "digits_val b 0 xs" "digits_val b 0 ys"] vx by simp
  next
    case equal
    then show ?thesis using Cons.IH Cons.prems by simp
  next
    case greater
    then show ?thesis using lt [of y x "digits_val b 0 ys" "digits_val b 0 xs"] vy by simp
  qed
  also have "\<dots> \<longleftrightarrow> digits_val b 0 (x # xs) < digits_val b 0 (y # ys)"
    using Cons.hyps by (simp only: digits_val_Cons)
  finally show ?case .
qed

lemma map_less_iff_strict_mono:
  fixes f :: "'a::linorder \<Rightarrow> 'b::linorder"
  assumes "strict_mono_on A f" "set xs \<subseteq> A" "set ys \<subseteq> A"
  shows "map f xs < map f ys \<longleftrightarrow> xs < ys"
  using assms(2,3)
proof (induction xs arbitrary: ys)
  case Nil
  then show ?case by (cases ys) simp_all
next
  case (Cons x xs)
  then show ?case
  proof (cases ys)
    case Nil
    then show ?thesis by simp
  next
    case (Cons y ys')
    with Cons.prems have "x \<in> A" "y \<in> A" by simp_all
    then have "f x < f y \<longleftrightarrow> x < y" and "f x = f y \<longleftrightarrow> x = y"
      using strict_mono_on_less [OF assms(1)] strict_mono_on_eqD [OF assms(1)] by blast+
    moreover have "map f xs < map f ys' \<longleftrightarrow> xs < ys'"
      using Cons.IH Cons.prems \<open>ys = y # ys'\<close> by simp
    ultimately show ?thesis using \<open>ys = y # ys'\<close> by (simp add: Cons_less_Cons)
  qed
qed

lemma to_digits_less_iff:
  fixes f :: "nat \<Rightarrow> 'a::linorder"
  assumes "strict_mono_on {..<b} f" "0 < b" "n < b ^ k" "m < b ^ k"
  shows "map f (to_digits b k n) < map f (to_digits b k m) \<longleftrightarrow> n < m"
proof -
  have "set (to_digits b k n) \<subseteq> {..<b}" "set (to_digits b k m) \<subseteq> {..<b}"
    using to_digits_below [OF assms(2), of k] by (auto simp: all_below_def list_all_iff)
  then have "map f (to_digits b k n) < map f (to_digits b k m) \<longleftrightarrow> to_digits b k n < to_digits b k m"
    by (rule map_less_iff_strict_mono [OF assms(1)])
  also have "\<dots> \<longleftrightarrow> digits_val b 0 (to_digits b k n) < digits_val b 0 (to_digits b k m)"
    by (rule digits_val_less_iff) (simp_all add: to_digits_below assms(2))
  also have "\<dots> \<longleftrightarrow> n < m" using assms(3,4) by (simp add: digits_val_to_digits)
  finally show ?thesis .
qed

lemma append_less_iff:
  "length a = length a' \<Longrightarrow> a @ b < a' @ b' \<longleftrightarrow> a < a' \<or> (a = a' \<and> b < b')"
  by (induction a a' rule: list_induct2) (auto simp: Cons_less_Cons)

lemma strict_mono_on_nth:
  "sorted_wrt (<) xs \<Longrightarrow> strict_mono_on {..<length xs} (\<lambda>d. xs ! d)"
  by (rule strict_mono_onI) (simp add: sorted_wrt_nth_less)

lemma take_drop_join: "take n (drop m u) @ drop (n + m) u = drop m u"
  by (metis append_take_drop_id drop_drop)

subsection \<open>Big-endian byte strings\<close>

lemma all_below_unat: "all_below 256 (map unat (bs :: byte list))"
  by (simp add: all_below_def list_all_iff unsigned_less [where 'b = 8, simplified])

lemma be_nat_bound: "be_nat bs < 2 ^ (8 * length bs)"
  using digits_val_bound [OF all_below_unat [of bs]]
  by (simp add: be_nat_def power_mult)

lemma length_nat_to_be [simp]: "length (nat_to_be k n) = k"
  by (simp add: nat_to_be_def)

lemma nat_to_be_be_nat: "nat_to_be (length bs) (be_nat bs) = bs"
proof -
  have "to_digits 256 (length bs) (be_nat bs) = map unat bs"
    using to_digits_digits_val [OF all_below_unat [of bs]] by (simp add: be_nat_def)
  then show ?thesis by (simp add: nat_to_be_def comp_def)
qed

lemma be_nat_nat_to_be: "n < 2 ^ (8 * k) \<Longrightarrow> be_nat (nat_to_be k n) = n"
proof -
  assume "n < 2 ^ (8 * k)"
  moreover have "map unat (map (of_nat :: nat \<Rightarrow> byte) (to_digits 256 k n)) = to_digits 256 k n"
    using to_digits_below [of 256 k n]
    by (auto simp: all_below_def list_all_iff unat_of_nat intro!: map_idI)
  ultimately show ?thesis
    by (simp add: be_nat_def nat_to_be_def digits_val_to_digits power_mult)
qed

lemma be_nat_inj:
  "length xs = length ys \<Longrightarrow> be_nat xs = be_nat ys \<Longrightarrow> xs = ys"
  by (metis nat_to_be_be_nat)

lemma be_nat_less_iff:
  "length xs = length ys \<Longrightarrow> xs < ys \<longleftrightarrow> be_nat xs < be_nat ys"
proof -
  assume len: "length xs = length ys"
  have "strict_mono_on UNIV (unat :: byte \<Rightarrow> nat)"
    by (rule strict_mono_onI) (simp add: word_less_nat_alt)
  then have "map unat xs < map unat ys \<longleftrightarrow> xs < ys"
    by (rule map_less_iff_strict_mono) simp_all
  moreover have "map unat xs < map unat ys \<longleftrightarrow> be_nat xs < be_nat ys"
    unfolding be_nat_def
    by (rule digits_val_less_iff) (simp_all add: len all_below_unat)
  ultimately show ?thesis by simp
qed

lemma be_nat_snoc: "be_nat (bs @ [b]) = be_nat bs * 256 + unat b"
  by (simp add: be_nat_def digits_val_snoc)

lemma all_less_list_all: "(\<forall>k<n. P k) \<longleftrightarrow> list_all P [0..<n]"
  by (auto simp: list_all_iff)


subsection \<open>Lists indexed by numerals\<close>

text \<open>
  Unfolding a prefix or a range of a fixed numeral length into its elements, keeping the
  indices as numerals (\<open>Suc 0\<close> for the second, as \<open>s ! Suc x\<close> produces).
\<close>

lemma take_numeral_nth:
  "numeral k \<le> length s \<Longrightarrow> take (numeral k) s = take (pred_numeral k) s @ [s ! pred_numeral k]"
  "s \<noteq> [] \<Longrightarrow> take (Suc 0) s = [s ! 0]" "s ! 1 = s ! Suc 0"
  by (simp_all add: numeral_eq_Suc take_Suc_conv_app_nth)

lemma upt_numeral_snoc:
  "[0..<numeral k] = [0..<pred_numeral k] @ [pred_numeral k]" "[0..<1] = [0]"
  by (simp_all add: numeral_eq_Suc)

end
