(* ===== verification/UUID.thy ===== *)
theory UUID
  imports Prelude
begin

text \<open>
  The parts of \<open>github.com/google/uuid\<close> that \<open>src/primarykey.go\<close> calls: the
  type \<open>UUID [16]byte\<close>, its canonical text (\<open>UUID.String\<close>, \<open>encodeHex\<close>), the
  parser \<open>Parse\<close> with its helper \<open>xtob\<close>, \<open>FromBytes\<close>, the database scanner
  \<open>UUID.Scan\<close> and the version-4 generator \<open>NewRandom\<close>. The library is not part of the
  repository; the definitions follow the spec (sections 4.1, 4.2, 4.4) and, where the spec
  defers to "the underlying UUID parser", the library's documented conventions.
  A \<open>[16]byte\<close> array is a byte list of length 16 (\<open>uuid_wf\<close>); every operation
  that builds a UUID builds one of length 16.
\<close>

unbundle bit_operations_syntax

type_synonym uuid = "byte list"

definition uuid_wf :: "uuid \<Rightarrow> bool" where
  "uuid_wf u \<longleftrightarrow> length u = 16"

definition uuid_nil :: uuid where
  "uuid_nil = replicate 16 0"

subsection \<open>Canonical text: \<open>UUID.String\<close>\<close>

text \<open>\<open>hex.Encode\<close> writes \<open>hextable[v>>4]\<close> and \<open>hextable[v&0x0f]\<close> for each byte.\<close>

definition hextable :: string where
  "hextable = ''0123456789abcdef''"

definition hex_byte :: "byte \<Rightarrow> string" where
  "hex_byte v = [hextable ! unat (drop_bit 4 v), hextable ! unat (v AND 0x0f)]"

definition hex_encode :: "byte list \<Rightarrow> string" where
  "hex_encode bs = concat (map hex_byte bs)"

text \<open>\<open>encodeHex\<close>: groups of 4, 2, 2, 2 and 6 bytes, separated by hyphens.\<close>

definition uuid_string :: "uuid \<Rightarrow> string" where
  "uuid_string u =
     hex_encode (take 4 u) @ ''-'' @ hex_encode (take 2 (drop 4 u)) @ ''-'' @
     hex_encode (take 2 (drop 6 u)) @ ''-'' @ hex_encode (take 2 (drop 8 u)) @ ''-'' @
     hex_encode (drop 10 u)"

subsection \<open>Parsing: \<open>Parse\<close>\<close>

text \<open>
  \<open>xvalues\<close> maps the hexadecimal digits of either case to their value and every other
  byte to 255; \<open>xtob\<close> combines two digits to \<open>b1 << 4 | b2\<close> and reports whether both
  were digits.
\<close>

definition xvalue :: "char \<Rightarrow> byte option" where
  "xvalue c = (let n = (of_char c :: nat) in
     if 48 \<le> n \<and> n \<le> 57 then Some (of_nat (n - 48))
     else if 97 \<le> n \<and> n \<le> 102 then Some (of_nat (n - 87))
     else if 65 \<le> n \<and> n \<le> 70 then Some (of_nat (n - 55))
     else None)"

definition xtob :: "char \<Rightarrow> char \<Rightarrow> byte option" where
  "xtob x1 x2 = (case (xvalue x1, xvalue x2) of
     (Some b1, Some b2) \<Rightarrow> Some (push_bit 4 b1 OR b2)
   | _ \<Rightarrow> None)"

text \<open>The loop \<open>for i, x := range [16]int{...}\<close>: one byte from the two digits at each offset.\<close>

fun parse_bytes_at :: "string \<Rightarrow> nat list \<Rightarrow> error + byte list" where
  "parse_bytes_at s [] = Inr []"
| "parse_bytes_at s (x # xs) =
     (case xtob (s ! x) (s ! Suc x) of
        None \<Rightarrow> Inl InvalidFormat
      | Some v \<Rightarrow> (case parse_bytes_at s xs of Inl e \<Rightarrow> Inl e | Inr vs \<Rightarrow> Inr (v # vs)))"

definition dashed_offsets :: "nat list" where
  "dashed_offsets = [0, 2, 4, 6, 9, 11, 14, 16, 19, 21, 24, 26, 28, 30, 32, 34]"

definition plain_offsets :: "nat list" where
  "plain_offsets = map (\<lambda>i. 2 * i) [0..<16]"

text \<open>The common tail of \<open>Parse\<close> for a string of at least 36 bytes.\<close>

definition parse_dashed :: "string \<Rightarrow> error + uuid" where
  "parse_dashed s =
     (if s ! 8 \<noteq> CHR ''-'' \<or> s ! 13 \<noteq> CHR ''-'' \<or> s ! 18 \<noteq> CHR ''-'' \<or> s ! 23 \<noteq> CHR ''-''
      then Inl InvalidFormat
      else parse_bytes_at s dashed_offsets)"

text \<open>
  \<open>strings.EqualFold\<close> against the ASCII prefix \<open>urn:uuid:\<close> is ASCII case-insensitive
  equality: no byte sequence outside ASCII folds to one of its letters.
\<close>

definition ascii_lower :: "char \<Rightarrow> char" where
  "ascii_lower c = (let n = (of_char c :: nat) in if 65 \<le> n \<and> n \<le> 90 then char_of (n + 32) else c)"

text \<open>
  \<open>Parse\<close> dispatches on the length: 36 (canonical), 45 (\<open>urn:uuid:\<close> prefix),
  38 (braces: the first byte is dropped and neither brace is inspected) and 32 (no hyphens).
\<close>

definition uuid_parse :: "string \<Rightarrow> error + uuid" where
  "uuid_parse s =
     (if length s = 36 then parse_dashed s
      else if length s = 36 + 9 then
        (if map ascii_lower (take 9 s) = ''urn:uuid:'' then parse_dashed (drop 9 s)
         else Inl (InvalidUrnPrefix (take 9 s)))
      else if length s = 36 + 2 then parse_dashed (drop 1 s)
      else if length s = 32 then parse_bytes_at s plain_offsets
      else Inl (InvalidLength (length s)))"

subsection \<open>Construction from bytes, scanning, generation\<close>

definition uuid_from_bytes :: "byte list \<Rightarrow> error + uuid" where
  "uuid_from_bytes b = (if length b \<noteq> 16 then Inl (InvalidByteCount (length b)) else Inr b)"

text \<open>
  A \<open>database/sql/driver\<close> value, as \<open>Scan\<close> receives it and \<open>Value\<close> returns it,
  by its dynamic type: \<open>nil\<close>, the driver value types \<open>string\<close>, \<open>[]byte\<close>,
  \<open>int64\<close>, \<open>bool\<close>, Go's \<open>int\<close>, and any other type, by its name.
\<close>

datatype driver_value =
    DvNil
  | DvString string
  | DvBytes "byte list"
  | DvInt "64 word"
  | DvInt64 "64 word"
  | DvBool bool
  | DvOther string

fun dv_type_name :: "driver_value \<Rightarrow> string" where
  "dv_type_name DvNil = ''<nil>''"
| "dv_type_name (DvString s) = ''string''"
| "dv_type_name (DvBytes b) = ''[]uint8''"
| "dv_type_name (DvInt i) = ''int''"
| "dv_type_name (DvInt64 i) = ''int64''"
| "dv_type_name (DvBool b) = ''bool''"
| "dv_type_name (DvOther t) = t"

text \<open>
  \<open>driver.IsValue\<close>: the values a driver must accept are \<open>nil\<close> and the types
  \<open>[]byte\<close>, \<open>bool\<close>, \<open>float64\<close>, \<open>int64\<close>, \<open>string\<close> and \<open>time.Time\<close>; Go's
  \<open>int\<close> is not one of them (\<open>database/sql\<close> converts it before it reaches a
  driver). The decimal interface of \<open>IsValue\<close> is not modelled.
\<close>

fun driver_is_value :: "driver_value \<Rightarrow> bool" where
  "driver_is_value (DvInt i) = False"
| "driver_is_value (DvOther t) = (t \<in> {''float64'', ''time.Time''})"
| "driver_is_value v = True"

text \<open>
  \<open>UUID.Scan\<close> has a pointer receiver: the model takes the receiver's value and returns
  its value afterwards with the returned error. \<open>nil\<close> leaves the receiver as it is
  (spec 4.4), text is parsed, a byte buffer is copied through \<open>FromBytes\<close>, and any other
  type is refused.
\<close>

fun uuid_scan :: "driver_value \<Rightarrow> uuid \<Rightarrow> uuid \<times> error option" where
  "uuid_scan DvNil u = (u, None)"
| "uuid_scan (DvString s) u =
     (case uuid_parse s of Inl e \<Rightarrow> (u, Some (ScanFailed e)) | Inr v \<Rightarrow> (v, None))"
| "uuid_scan (DvBytes b) u =
     (case uuid_from_bytes b of Inl e \<Rightarrow> (u, Some e) | Inr v \<Rightarrow> (v, None))"
| "uuid_scan src u = (u, Some (UnsupportedSourceType (dv_type_name src)))"

text \<open>
  \<open>NewRandom\<close> reads 16 bytes from the random source with \<open>io.ReadFull\<close>; the model
  takes the result of that read, \<open>Some\<close> of the bytes or \<open>None\<close> when the read fails,
  which \<open>NewRandom\<close> returns as an error. It then sets the version (byte 6, high nibble
  4) and the variant (byte 8, high bits 10). \<open>New\<close> is \<open>Must(NewRandom())\<close>: it panics
  on the error.
\<close>

definition uuid_new_random :: "byte list option \<Rightarrow> error + uuid" where
  "uuid_new_random rd =
     (case rd of
        None \<Rightarrow> Inl RandomReadFailed
      | Some r \<Rightarrow> Inr (r[6 := (r ! 6 AND 0x0f) OR 0x40, 8 := (r ! 8 AND 0x3f) OR 0x80]))"

definition uuid_new :: "byte list option \<Rightarrow> uuid outcome" where
  "uuid_new rd = (case uuid_new_random rd of Inl e \<Rightarrow> Panics e | Inr u \<Rightarrow> Returns u)"

subsection \<open>Lemmas: hexadecimal digits\<close>

lemma xvalue_hextable: "k < 16 \<Longrightarrow> xvalue (hextable ! k) = Some (of_nat k)"
  by (auto simp: less_Suc_eq numeral_eq_Suc hextable_def xvalue_def)

lemma byte_nibbles: "push_bit 4 (drop_bit 4 v) OR (v AND 0x0f) = (v :: byte)"
proof -
  have m: "(0x0f :: byte) = mask 4" by (simp add: mask_eq_exp_minus_1)
  show ?thesis unfolding m by (rule bit_word_eqI) (auto simp: bit_simps)
qed

lemma unat_high_nibble: "unat (drop_bit 4 (v :: byte)) < 16"
proof -
  have "unat v < 256" using unsigned_less [of v] by simp
  then show ?thesis by (simp add: drop_bit_eq_div unat_div_distrib)
qed

lemma unat_low_nibble: "unat (v AND 0x0f :: byte) < 16"
proof -
  have "unat (v AND 0x0f) \<le> unat (0x0f :: byte)"
    by (rule word_and_le1 [THEN word_le_nat_alt [THEN iffD1]])
  then show ?thesis by simp
qed

lemma xtob_hex_byte: "xtob (hex_byte v ! 0) (hex_byte v ! Suc 0) = Some v"
  using xvalue_hextable [OF unat_high_nibble [of v]] xvalue_hextable [OF unat_low_nibble [of v]]
  by (simp add: xtob_def hex_byte_def byte_nibbles)

lemma hex_byte_mem: "hex_byte v ! 0 \<in> set hextable" "hex_byte v ! Suc 0 \<in> set hextable"
proof -
  have "length hextable = 16" by (simp add: hextable_def)
  then show "hex_byte v ! 0 \<in> set hextable" "hex_byte v ! Suc 0 \<in> set hextable"
    using unat_high_nibble [of v] unat_low_nibble [of v] by (simp_all add: hex_byte_def nth_mem)
qed

lemma hex_encode_simps:
  "hex_encode [] = []"
  "hex_encode (v # vs) = hex_byte v ! 0 # hex_byte v ! 1 # hex_encode vs"
  by (simp_all add: hex_encode_def hex_byte_def)

lemma list16_cases:
  assumes "length xs = 16"
  obtains a0 a1 a2 a3 a4 a5 a6 a7 a8 a9 a10 a11 a12 a13 a14 a15 where
    "xs = [a0, a1, a2, a3, a4, a5, a6, a7, a8, a9, a10, a11, a12, a13, a14, a15]"
  using assms
  by (auto simp add: length_Suc_conv numeral_eq_Suc)

lemma uuid_parse_uuid_string: "uuid_wf u \<Longrightarrow> uuid_parse (uuid_string u) = Inr u"
proof -
  assume "uuid_wf u"
  obtain a0 a1 a2 a3 a4 a5 a6 a7 a8 a9 a10 a11 a12 a13 a14 a15 where
    u: "u = [a0, a1, a2, a3, a4, a5, a6, a7, a8, a9, a10, a11, a12, a13, a14, a15]"
    using \<open>uuid_wf u\<close> unfolding uuid_wf_def by (rule list16_cases)
  show ?thesis
    unfolding u uuid_string_def uuid_parse_def parse_dashed_def dashed_offsets_def
    by (simp add: hex_encode_simps xtob_hex_byte)
qed

subsection \<open>Lemmas: every parsed UUID has 16 bytes\<close>

lemma parse_bytes_at_length: "parse_bytes_at s xs = Inr vs \<Longrightarrow> length vs = length xs"
  by (induction s xs arbitrary: vs rule: parse_bytes_at.induct) (auto split: option.splits sum.splits)

lemma length_offsets: "length dashed_offsets = 16" "length plain_offsets = 16"
  by (simp_all add: dashed_offsets_def plain_offsets_def)

lemma parse_dashed_wf: "parse_dashed s = Inr u \<Longrightarrow> uuid_wf u"
  using parse_bytes_at_length [of s dashed_offsets u]
  by (simp add: parse_dashed_def uuid_wf_def length_offsets split: if_splits)

lemma uuid_parse_wf: "uuid_parse s = Inr u \<Longrightarrow> uuid_wf u"
  using parse_bytes_at_length [of s plain_offsets u]
  by (auto simp: uuid_parse_def uuid_wf_def length_offsets dest: parse_dashed_wf split: if_splits)

lemma uuid_from_bytes_wf: "uuid_from_bytes b = Inr u \<Longrightarrow> uuid_wf u"
  by (simp add: uuid_from_bytes_def uuid_wf_def split: if_splits)

lemma uuid_scan_wf: "uuid_wf u \<Longrightarrow> uuid_wf (fst (uuid_scan src u))"
  by (cases src) (auto split: sum.splits dest: uuid_parse_wf uuid_from_bytes_wf)

lemma new_random_bytes:
  "(((x :: byte) AND 0x0f) OR 0x40) AND 0xf0 = 0x40"
  "(((x :: byte) AND 0x0f) OR 0x40) AND 0x0f = x AND 0x0f"
  "(((x :: byte) AND 0x3f) OR 0x80) AND 0xc0 = 0x80"
  "(((x :: byte) AND 0x3f) OR 0x80) AND 0x3f = x AND 0x3f"
  by (simp_all add: bit.conj_disj_distrib2 and.assoc)

subsection \<open>Lemmas: the canonical text is the hexadecimal numeral of the bytes\<close>

lemma unat_nibbles:
  "unat (drop_bit 4 (v :: byte)) = unat v div 16"
  "unat (v AND 0x0f :: byte) = unat v mod 16"
proof -
  show "unat (drop_bit 4 v) = unat v div 16" by (simp add: drop_bit_eq_div unat_div_distrib)
  have m: "(0x0f :: byte) = mask 4" by (simp add: mask_eq_exp_minus_1)
  show "unat (v AND 0x0f) = unat v mod 16"
    unfolding m by (simp add: take_bit_eq_mask [symmetric] unsigned_take_bit_eq take_bit_eq_mod unat_mod_distrib)
qed

lemma hex_encode_snoc: "hex_encode (bs @ [b]) = hex_encode bs @ hex_byte b"
  by (simp add: hex_encode_def)

lemma hex_encode_digits:
  "hex_encode bs = map (\<lambda>d. hextable ! d) (to_digits 16 (2 * length bs) (be_nat bs))"
proof (induction bs rule: rev_induct)
  case Nil
  then show ?case by (simp add: hex_encode_def)
next
  case (snoc b bs)
  let ?n = "be_nat bs * 256 + unat b"
  have ub: "unat b < 256" using unsigned_less [of b] by simp
  have d1: "?n div 16 div 16 = be_nat bs" using ub by (simp add: div_mult2_eq [symmetric])
  have d2: "?n div 16 mod 16 = unat b div 16"
  proof -
    have "?n div 16 = be_nat bs * 16 + unat b div 16" by simp
    then show ?thesis using ub by simp
  qed
  have d3: "?n mod 16 = unat b mod 16"
  proof -
    have "?n = unat b + (be_nat bs * 16) * 16" by simp
    then show ?thesis by (metis mod_mult_self1 mod_mult_self2)
  qed
  have "to_digits 16 (2 * length (bs @ [b])) ?n = to_digits 16 (2 * length bs) (?n div 16 div 16) @ [?n div 16 mod 16, ?n mod 16]"
    by simp
  then show ?case
    using snoc.IH by (simp add: hex_encode_snoc be_nat_snoc hex_byte_def unat_nibbles d1 d2 d3)
qed

lemma length_hextable [simp]: "length hextable = 16"
  by (simp add: hextable_def)

lemma hextable_sorted: "sorted_wrt (<) hextable"
  by (simp add: hextable_def sorted_wrt2 [OF transp_on_less] less_char_def)

lemma hex_encode_mem: "set (hex_encode bs) \<subseteq> set hextable"
  using hex_byte_mem by (auto simp: hex_encode_def hex_byte_def)

lemma hex_encode_append: "hex_encode (xs @ ys) = hex_encode xs @ hex_encode ys"
  by (simp add: hex_encode_def)

lemma uuid_groups:
  "take 4 u @ take 2 (drop 4 u) @ take 2 (drop 6 u) @ take 2 (drop 8 u) @ drop 10 u = u"
  using take_drop_join [of 2 8 u] take_drop_join [of 2 6 u] take_drop_join [of 2 4 u]
    append_take_drop_id [of 4 u]
  by simp

lemma length_hex_encode [simp]: "length (hex_encode bs) = 2 * length bs"
  by (induction bs) (simp_all add: hex_encode_def hex_byte_def)

lemma hex_encode_groups:
  "hex_encode u = hex_encode (take 4 u) @ hex_encode (take 2 (drop 4 u)) @
     hex_encode (take 2 (drop 6 u)) @ hex_encode (take 2 (drop 8 u)) @ hex_encode (drop 10 u)"
  by (simp only: hex_encode_append [symmetric] uuid_groups)

lemma uuid_string_less_iff:
  assumes "length x = 16" "length y = 16"
  shows "uuid_string x < uuid_string y \<longleftrightarrow> hex_encode x < hex_encode y"
  unfolding uuid_string_def hex_encode_groups [of x] hex_encode_groups [of y]
  using assms by (simp add: append_less_iff Cons_less_Cons)

lemma uuid_string_hex:
  "filter (\<lambda>c. c \<noteq> CHR ''-'') (uuid_string u) = hex_encode u"
proof -
  have "filter (\<lambda>c. c \<noteq> CHR ''-'') (hex_encode bs) = hex_encode bs" for bs
    using hex_encode_mem [of bs] by (auto simp: filter_id_conv hextable_def)
  then show ?thesis
    by (simp add: uuid_string_def hex_encode_groups [of u])
qed

lemma uuid_string_shape:
  assumes "uuid_wf u"
  shows "length (uuid_string u) = 36 \<and>
    (\<forall>k<36. if k \<in> {8, 13, 18, 23} then uuid_string u ! k = CHR ''-'' else uuid_string u ! k \<in> set hextable)"
proof -
  obtain a0 a1 a2 a3 a4 a5 a6 a7 a8 a9 a10 a11 a12 a13 a14 a15 where
    u: "u = [a0, a1, a2, a3, a4, a5, a6, a7, a8, a9, a10, a11, a12, a13, a14, a15]"
    using assms unfolding uuid_wf_def by (rule list16_cases)
  show ?thesis
    unfolding u uuid_string_def all_less_list_all
    by (simp add: hex_encode_simps hex_byte_mem upt_rec)
qed

subsection \<open>Lemmas: the other textual forms \<open>Parse\<close> accepts\<close>

lemma parse_dashed_append:
  "uuid_wf u \<Longrightarrow> parse_dashed (uuid_string u @ r) = Inr u"
proof -
  assume "uuid_wf u"
  obtain a0 a1 a2 a3 a4 a5 a6 a7 a8 a9 a10 a11 a12 a13 a14 a15 where
    u: "u = [a0, a1, a2, a3, a4, a5, a6, a7, a8, a9, a10, a11, a12, a13, a14, a15]"
    using \<open>uuid_wf u\<close> unfolding uuid_wf_def by (rule list16_cases)
  show ?thesis
    unfolding u uuid_string_def parse_dashed_def dashed_offsets_def
    by (simp add: hex_encode_simps xtob_hex_byte)
qed

lemma parse_plain_hex:
  "uuid_wf u \<Longrightarrow> parse_bytes_at (hex_encode u) plain_offsets = Inr u"
proof -
  assume "uuid_wf u"
  obtain a0 a1 a2 a3 a4 a5 a6 a7 a8 a9 a10 a11 a12 a13 a14 a15 where
    u: "u = [a0, a1, a2, a3, a4, a5, a6, a7, a8, a9, a10, a11, a12, a13, a14, a15]"
    using \<open>uuid_wf u\<close> unfolding uuid_wf_def by (rule list16_cases)
  show ?thesis
    unfolding u plain_offsets_def
    by (simp add: hex_encode_simps xtob_hex_byte upt_rec)
qed

lemma length_uuid_string: "uuid_wf u \<Longrightarrow> length (uuid_string u) = 36"
  using uuid_string_shape by blast

lemma uuid_parse_forms:
  assumes "uuid_wf u"
  shows "uuid_parse (CHR ''{'' # uuid_string u @ ''}'') = Inr u"
    and "uuid_parse (''urn:uuid:'' @ uuid_string u) = Inr u"
    and "uuid_parse (hex_encode u) = Inr u"
proof -
  have l: "length (uuid_string u) = 36" using assms by (rule length_uuid_string)
  show "uuid_parse (CHR ''{'' # uuid_string u @ ''}'') = Inr u"
    using l parse_dashed_append [OF assms] by (simp add: uuid_parse_def)
  show "uuid_parse (''urn:uuid:'' @ uuid_string u) = Inr u"
    using l parse_dashed_append [OF assms, of "[]"] by (simp add: uuid_parse_def ascii_lower_def)
  show "uuid_parse (hex_encode u) = Inr u"
    using assms parse_plain_hex [OF assms] by (simp add: uuid_parse_def uuid_wf_def)
qed

end
