(* ===== verification/ShortUUID.thy ===== *)
theory ShortUUID
  imports UUID
begin

text \<open>
  The short-form codec that \<open>src/primarykey.go\<close> reaches through
  \<open>shortuuid.DefaultEncoder\<close> (\<open>github.com/lithammer/shortuuid/v4\<close>, not part of
  the repository; modelled from spec section 4.3). The 16 bytes are read as one unsigned
  number, big-endian; the encoder divides it by 57 repeatedly, emits one alphabet character
  per remainder, pads with the alphabet's first character to the encoded length and
  reverses, so the most significant digit comes first. The decoder multiplies up
  \<open>n = n * 57 + index\<close> over the characters and fails on a character outside the
  alphabet, on a value of 2 to the 128 or more, and on the empty string.
\<close>

definition default_alphabet :: string where
  "default_alphabet = ''23456789ABCDEFGHJKLMNPQRSTUVWXYZabcdefghijkmnopqrstuvwxyz''"

definition alphabet_len :: nat where
  "alphabet_len = length default_alphabet"

text \<open>\<open>alphabet.Index\<close>: the position of a character, an error if it is absent.\<close>

fun index_of :: "char \<Rightarrow> string \<Rightarrow> nat option" where
  "index_of c [] = None"
| "index_of c (x # xs) = (if x = c then Some 0 else map_option Suc (index_of c xs))"

definition alphabet_index :: "char \<Rightarrow> error + nat" where
  "alphabet_index c =
     (case index_of c default_alphabet of None \<Rightarrow> Inl (InvalidShortChar c) | Some i \<Rightarrow> Inr i)"

text \<open>
  The encoded length \<open>ceil (log (2^128) / log 57)\<close>, that is 22: the least \<open>k\<close> with
  \<open>2^128 \<le> 57^k\<close> (lemma \<open>encoded_length_least\<close>).
\<close>

definition encoded_length :: nat where
  "encoded_length = 22"

text \<open>\<open>numToString\<close>: the division loop, the padding with \<open>chars[0]\<close>, the reversal.\<close>

definition num_to_string :: "nat \<Rightarrow> nat \<Rightarrow> string" where
  "num_to_string number pad_to_len =
     (let out = map (\<lambda>d. default_alphabet ! d) (lsb_digits alphabet_len number)
      in rev (out @ replicate (pad_to_len - length out) (default_alphabet ! 0)))"

definition short_encode :: "uuid \<Rightarrow> string" where
  "short_encode u = num_to_string (be_nat u) encoded_length"

text \<open>\<open>stringToNum\<close>: most significant character first.\<close>

fun string_to_num :: "nat \<Rightarrow> string \<Rightarrow> error + nat" where
  "string_to_num n [] = Inr n"
| "string_to_num n (c # cs) =
     (case alphabet_index c of
        Inl e \<Rightarrow> Inl e
      | Inr i \<Rightarrow> string_to_num (n * alphabet_len + i) cs)"

definition short_decode :: "string \<Rightarrow> error + uuid" where
  "short_decode s =
     (if s = [] then Inl EmptyShortString
      else case string_to_num 0 s of
        Inl e \<Rightarrow> Inl e
      | Inr n \<Rightarrow> if n < 2 ^ 128 then Inr (nat_to_be 16 n) else Inl ShortOverflow)"

subsection \<open>Lemmas: alphabet, digits, round trip\<close>

lemma alphabet_len_57 [simp]: "alphabet_len = 57"
  by (simp add: alphabet_len_def default_alphabet_def)

lemma alphabet_strict_sorted: "sorted_wrt (<) default_alphabet"
  by (simp add: default_alphabet_def sorted_wrt2 [OF transp_on_less] less_char_def)

lemma length_default_alphabet [simp]: "length default_alphabet = 57"
  by (simp add: default_alphabet_def)

lemma index_of_Some: "index_of c xs = Some i \<Longrightarrow> i < length xs \<and> xs ! i = c"
  by (induction xs arbitrary: i) (auto split: if_splits)

lemma index_of_None: "index_of c xs = None \<longleftrightarrow> c \<notin> set xs"
  by (induction xs) auto

lemma index_of_nth: "distinct xs \<Longrightarrow> i < length xs \<Longrightarrow> index_of (xs ! i) xs = Some i"
proof (induction xs arbitrary: i)
  case Nil
  then show ?case by simp
next
  case (Cons x xs)
  then show ?case by (cases i) (auto simp: nth_mem)
qed

lemma alphabet_distinct: "distinct default_alphabet"
  using alphabet_strict_sorted by (simp add: strict_sorted_iff)

lemma alphabet_index_nth: "d < 57 \<Longrightarrow> alphabet_index (default_alphabet ! d) = Inr d"
  by (simp add: alphabet_index_def index_of_nth alphabet_distinct)

lemma encoded_length_least: "2 ^ 128 \<le> (57::nat) ^ encoded_length \<and> (57::nat) ^ (encoded_length - 1) < 2 ^ 128"
  by (simp add: encoded_length_def)

lemma num_to_string_digits:
  assumes "n < 57 ^ k"
  shows "num_to_string n k = map (\<lambda>d. default_alphabet ! d) (to_digits 57 k n)"
proof -
  have "replicate (k - length (lsb_digits 57 n)) 0 @ rev (lsb_digits 57 n) = to_digits 57 k n"
    using assms by (intro pad_rev_lsb_digits) simp_all
  then have "map (\<lambda>d. default_alphabet ! d) (to_digits 57 k n) =
      replicate (k - length (lsb_digits 57 n)) (default_alphabet ! 0) @ rev (map (\<lambda>d. default_alphabet ! d) (lsb_digits 57 n))"
    by (metis map_append map_replicate rev_map)
  then show ?thesis by (simp add: num_to_string_def Let_def)
qed

lemma be_nat_uuid_bound: "uuid_wf u \<Longrightarrow> be_nat u < 2 ^ 128"
  using be_nat_bound [of u] by (simp add: uuid_wf_def)

lemma short_encode_digits:
  "uuid_wf u \<Longrightarrow> short_encode u = map (\<lambda>d. default_alphabet ! d) (to_digits 57 22 (be_nat u))"
proof -
  assume "uuid_wf u"
  then have "be_nat u < 57 ^ 22" using be_nat_uuid_bound [of u] by simp
  then show ?thesis by (simp add: short_encode_def encoded_length_def num_to_string_digits)
qed

lemma string_to_num_digits:
  "all_below 57 ds \<Longrightarrow> string_to_num n (map (\<lambda>d. default_alphabet ! d) ds) = Inr (digits_val 57 n ds)"
  by (induction ds arbitrary: n) (simp_all add: alphabet_index_nth)

lemma short_decode_short_encode: "uuid_wf u \<Longrightarrow> short_decode (short_encode u) = Inr u"
proof -
  assume wf: "uuid_wf u"
  let ?ds = "to_digits 57 22 (be_nat u)"
  have below: "all_below 57 ?ds" by (rule to_digits_below) simp
  have ne: "?ds \<noteq> []" using length_to_digits [of 57 22 "be_nat u"] by (auto simp del: length_to_digits)
  have val: "digits_val 57 0 ?ds = be_nat u"
    using be_nat_uuid_bound [OF wf] by (simp add: digits_val_to_digits)
  have "nat_to_be 16 (be_nat u) = u"
    using nat_to_be_be_nat [of u] wf by (simp add: uuid_wf_def)
  then show ?thesis
    using wf below val ne be_nat_uuid_bound [OF wf]
    by (simp add: short_encode_digits short_decode_def string_to_num_digits)
qed

lemma short_decode_wf: "short_decode s = Inr u \<Longrightarrow> uuid_wf u"
  by (auto simp: short_decode_def uuid_wf_def split: if_splits sum.splits)

subsection \<open>Lemmas: the decoder's results and errors\<close>

lemma short_encode_shape:
  "uuid_wf u \<Longrightarrow> length (short_encode u) = 22 \<and> set (short_encode u) \<subseteq> set default_alphabet"
  using to_digits_below [of 57 22 "be_nat u"]
  by (auto simp: short_encode_digits all_below_def list_all_iff nth_mem)

lemma string_to_num_Inr:
  "string_to_num n s = Inr m \<Longrightarrow> \<exists>ds. s = map (\<lambda>d. default_alphabet ! d) ds \<and> all_below 57 ds \<and> m = digits_val 57 n ds"
proof (induction s arbitrary: n)
  case Nil
  then show ?case by simp
next
  case (Cons c cs)
  then obtain i where i: "index_of c default_alphabet = Some i"
    and rest: "string_to_num (n * 57 + i) cs = Inr m"
    by (auto simp: alphabet_index_def split: option.splits)
  from i have "i < 57" "default_alphabet ! i = c" using index_of_Some by fastforce+
  moreover obtain ds where "cs = map (\<lambda>d. default_alphabet ! d) ds" "all_below 57 ds"
    "m = digits_val 57 (n * 57 + i) ds"
    using Cons.IH [OF rest] by blast
  ultimately show ?case by (intro exI [of _ "i # ds"]) simp
qed

lemma string_to_num_Inl:
  "string_to_num n s = Inl e \<Longrightarrow> \<exists>c. e = InvalidShortChar c \<and> c \<in> set s \<and> c \<notin> set default_alphabet"
  by (induction s arbitrary: n)
     (auto simp: alphabet_index_def index_of_None split: option.splits sum.splits)

lemma string_to_num_bad_char:
  "c \<in> set s \<Longrightarrow> c \<notin> set default_alphabet \<Longrightarrow> \<exists>e. string_to_num n s = Inl e"
proof (induction s arbitrary: n)
  case Nil
  then show ?case by simp
next
  case (Cons x xs)
  show ?case
  proof (cases "index_of x default_alphabet")
    case None
    then show ?thesis by (simp add: alphabet_index_def)
  next
    case (Some i)
    with Cons.prems have "c \<in> set xs" using index_of_Some [OF Some] by (auto simp: nth_mem)
    with Cons.IH Cons.prems Some show ?thesis by (simp add: alphabet_index_def)
  qed
qed

lemma in_alphabet_digits:
  "set s \<subseteq> set default_alphabet \<Longrightarrow> \<exists>ds. s = map (\<lambda>d. default_alphabet ! d) ds \<and> all_below 57 ds"
proof (induction s)
  case Nil
  then show ?case by simp
next
  case (Cons c cs)
  then obtain ds where "cs = map (\<lambda>d. default_alphabet ! d) ds" "all_below 57 ds" by auto
  moreover obtain i where "i < 57" "default_alphabet ! i = c"
    using Cons.prems by (auto simp: in_set_conv_nth)
  ultimately show ?case by (intro exI [of _ "i # ds"]) simp
qed

lemma short_encode_short_decode:
  assumes "short_decode s = Inr u" "length s = 22"
  shows "short_encode u = s"
proof -
  from assms(1) obtain n where n: "string_to_num 0 s = Inr n" "n < 2 ^ 128" "u = nat_to_be 16 n"
    by (auto simp: short_decode_def split: if_splits sum.splits)
  then obtain ds where ds: "s = map (\<lambda>d. default_alphabet ! d) ds" "all_below 57 ds" "n = digits_val 57 0 ds"
    using string_to_num_Inr by blast
  have "be_nat u = n" using n by (simp add: be_nat_nat_to_be)
  moreover have "uuid_wf u" using assms(1) by (rule short_decode_wf)
  moreover have "length ds = 22" using ds assms(2) by simp
  ultimately show ?thesis
    using ds to_digits_digits_val [OF ds(2)] by (simp add: short_encode_digits)
qed

lemma short_decode_Inl:
  "short_decode s = Inl e \<Longrightarrow> error_kind e = KParseError"
  by (auto simp: short_decode_def split: if_splits sum.splits dest!: string_to_num_Inl)

subsection \<open>Lemmas: strings of any length\<close>

text \<open>
  The decoder reads strings of any length; one it accepts is the short form of its result
  padded in front with \<open>2\<close> (the digit 0) when shorter than 22, or with leading
  \<open>2\<close>s removed when longer.
\<close>

lemma alphabet_nth_0: "default_alphabet ! 0 = CHR ''2''"
  by (simp add: default_alphabet_def)

lemma short_encode_normal:
  assumes "short_decode s = Inr u"
  shows "short_encode u = drop (length s) (replicate 22 (CHR ''2'')) @ drop (length s - 22) s \<and>
         set (take (length s - 22) s) \<subseteq> {CHR ''2''}"
proof -
  from assms obtain n where n: "string_to_num 0 s = Inr n" "n < 2 ^ 128" "u = nat_to_be 16 n"
    by (auto simp: short_decode_def split: if_splits sum.splits)
  then obtain ds where ds: "s = map (\<lambda>d. default_alphabet ! d) ds" "all_below 57 ds" "n = digits_val 57 0 ds"
    using string_to_num_Inr by blast
  have "be_nat u = n" using n by (simp add: be_nat_nat_to_be)
  moreover have "uuid_wf u" using assms by (rule short_decode_wf)
  moreover have "n < 57 ^ 22" using n(2) by simp
  ultimately have e: "short_encode u = map (\<lambda>d. default_alphabet ! d) (to_digits 57 22 (digits_val 57 0 ds))"
    using ds by (simp add: short_encode_digits)
  have "to_digits 57 22 (digits_val 57 0 ds) = drop (length ds) (replicate 22 0) @ drop (length ds - 22) ds \<and>
        set (take (length ds - 22) ds) \<subseteq> {0}"
    using ds \<open>n < 57 ^ 22\<close> by (intro to_digits_normal) simp_all
  then show ?thesis
    using e ds(1) by (auto simp: drop_map take_map alphabet_nth_0)
qed

end
