(* ===== verification/Json.thy ===== *)
theory Json
  imports Prelude
begin

text \<open>
  JSON values and the compact text \<open>json.Marshal\<close> writes for them, the part of
  \<open>encoding/json\<close> (spec 4.5 and 6; the standard library is not part of the repository)
  that the structured-text adapter of \<open>src/primarykey.go\<close> and its tests rely on. The
  decoder of JSON text is the theory \<open>JsonDecode\<close>; marshalling and unmarshalling Go
  strings and structs is \<open>JsonCodec\<close>.
\<close>

datatype json =
    JNull
  | JBool bool
  | JNumber string
  | JString string
  | JArray "json list"
  | JObject "(string \<times> json) list"

fun json_kind :: "json \<Rightarrow> string" where
  "json_kind JNull = ''null''"
| "json_kind (JBool b) = ''bool''"
| "json_kind (JNumber n) = ''number''"
| "json_kind (JString s) = ''string''"
| "json_kind (JArray vs) = ''array''"
| "json_kind (JObject fs) = ''object''"

subsection \<open>Rendering: \<open>json.Marshal\<close>\<close>

text \<open>
  \<open>encodeState.string\<close> with HTML escaping on (the default of \<open>json.Marshal\<close>): a
  character of \<open>htmlSafeSet\<close> (printable ASCII and DEL, except the quote, the backslash,
  \<open><\<close>, \<open>>\<close> and \<open>&\<close>) is copied, the quote and the backslash get a backslash, the
  five control characters with a short escape get it, and every other ASCII character is
  written \<open>\u00XX\<close> with the encoder's own \<open>hex\<close> table. Characters are bytes here;
  bytes from 0x80 up are copied (the UTF-8 validation of the encoder is not modelled).
\<close>

definition json_hex :: string where
  "json_hex = ''0123456789abcdef''"

definition html_safe :: "char \<Rightarrow> bool" where
  "html_safe c = (let b = (of_char c :: nat) in
     32 \<le> b \<and> b < 128 \<and> c \<notin> {CHR 0x22, CHR 0x5C, CHR ''<'', CHR ''>'', CHR ''&''})"

definition json_escape_char :: "char \<Rightarrow> string" where
  "json_escape_char c = (let b = (of_char c :: nat) in
     if 128 \<le> b \<or> html_safe c then [c]
     else if c = CHR 0x5C \<or> c = CHR 0x22 then [CHR 0x5C, c]
     else if c = CHR 0x08 then [CHR 0x5C, CHR ''b'']
     else if c = CHR 0x0C then [CHR 0x5C, CHR ''f'']
     else if c = CHR 0x0A then [CHR 0x5C, CHR ''n'']
     else if c = CHR 0x0D then [CHR 0x5C, CHR ''r'']
     else if c = CHR 0x09 then [CHR 0x5C, CHR ''t'']
     else [CHR 0x5C, CHR ''u'', CHR ''0'', CHR ''0'', json_hex ! (b div 16), json_hex ! (b mod 16)])"

definition json_quote :: "string \<Rightarrow> string" where
  "json_quote s = CHR 0x22 # concat (map json_escape_char s) @ [CHR 0x22]"

text \<open>The compact text \<open>json.Marshal\<close> writes: no white space, members in order.\<close>

fun json_join :: "string list \<Rightarrow> string" where
  "json_join [] = []"
| "json_join [x] = x"
| "json_join (x # xs) = x @ CHR '','' # json_join xs"

fun json_text :: "json \<Rightarrow> string" where
  "json_text JNull = ''null''"
| "json_text (JBool b) = (if b then ''true'' else ''false'')"
| "json_text (JNumber n) = n"
| "json_text (JString s) = json_quote s"
| "json_text (JArray vs) = CHR ''['' # json_join (map json_text vs) @ '']''"
| "json_text (JObject kvs) =
     CHR ''{'' # json_join (map (\<lambda>(k, v). json_quote k @ CHR '':'' # json_text v) kvs) @ ''}''"

subsection \<open>Lemmas\<close>

lemma json_escape_safe: "html_safe c \<Longrightarrow> json_escape_char c = [c]"
  by (simp add: json_escape_char_def)

lemma json_quote_safe: "list_all html_safe s \<Longrightarrow> json_quote s = CHR 0x22 # s @ [CHR 0x22]"
proof -
  assume "list_all html_safe s"
  then have "concat (map json_escape_char s) = s"
    by (induction s) (simp_all add: json_escape_safe)
  then show ?thesis by (simp add: json_quote_def)
qed

end
