(* ===== verification/JsonDecode.thy ===== *)
theory JsonDecode
  imports Json
begin

text \<open>
  The decoder of JSON text of \<open>encoding/json\<close>, as \<open>json.Unmarshal\<close> runs it before
  it stores anything: \<open>checkValid\<close> scans the whole input with the state machine of
  \<open>scanner.go\<close> and the decoder of \<open>decode.go\<close> then builds the value. Both accept
  the same texts, so the model is one recursive-descent parser that returns the value or
  \<open>JsonSyntaxError\<close>. Characters are bytes; the UTF-8 validation of string contents
  (invalid sequences become U+FFFD) is not modelled.

  \<^item> \<open>scan_number\<close>: the number states of the scanner (\<open>stateNeg\<close>, \<open>state0\<close>,
    \<open>state1\<close>, \<open>stateDot\<close>, \<open>stateE\<close>...): an optional minus, \<open>0\<close> or a
    digit run not starting with \<open>0\<close>, an optional fraction and exponent.
  \<^item> \<open>json_str\<close>: a string token after its opening quote, unquoted as
    \<open>unquoteBytes\<close> does: the short escapes, \<open>u\<close> escapes with four hex digits
    (\<open>getu4\<close>), a surrogate pair combined by \<open>utf16.DecodeRune\<close> and a lone
    surrogate replaced by U+FFFD, each written with \<open>utf8.EncodeRune\<close>; a control
    character or another escape is a syntax error.
  \<^item> \<open>json_value\<close>, \<open>json_elems\<close>, \<open>json_members\<close>: values, array elements and
    object members, with the scanner's nesting limit \<open>maxNestingDepth\<close> = 10000.
    The three functions take fuel; \<open>json_decode\<close> gives \<open>2 * length s + 1\<close>, which
    \<open>json_decode_fuel\<close> shows is always enough, so the out-of-fuel result is dead.
  \<^item> \<open>json_decode\<close>: \<open>checkValid\<close> and the decoding of one value with white space
    around it.

  The lemmas show that every step consumes input, that the fuel suffices, and that the
  decoder inverts \<open>json_text\<close> (\<open>json_decode_text\<close>) on values whose numbers are
  JSON numbers and whose nesting is within the limit.
\<close>

definition json_ws :: "char \<Rightarrow> bool" where
  "json_ws c \<longleftrightarrow> c = CHR '' '' \<or> c = CHR 0x09 \<or> c = CHR 0x0A \<or> c = CHR 0x0D"

definition skip_ws :: "string \<Rightarrow> string" where
  "skip_ws s = dropWhile json_ws s"

definition is_digit :: "char \<Rightarrow> bool" where
  "is_digit c \<longleftrightarrow> CHR ''0'' \<le> c \<and> c \<le> CHR ''9''"

definition scan_exp :: "string \<Rightarrow> string \<Rightarrow> (string \<times> string) option" where
  "scan_exp acc s =
     (if s \<noteq> [] \<and> (hd s = CHR ''e'' \<or> hd s = CHR ''E'') then
        (let r = tl s;
             sg = (if r \<noteq> [] \<and> (hd r = CHR ''+'' \<or> hd r = CHR ''-'') then [hd r] else []);
             r1 = drop (length sg) r;
             ds = takeWhile is_digit r1
         in if ds = [] then None else Some (acc @ hd s # sg @ ds, dropWhile is_digit r1))
      else Some (acc, s))"

definition scan_frac :: "string \<Rightarrow> string \<Rightarrow> (string \<times> string) option" where
  "scan_frac acc s =
     (if s \<noteq> [] \<and> hd s = CHR ''.'' then
        (let ds = takeWhile is_digit (tl s)
         in if ds = [] then None else scan_exp (acc @ CHR ''.'' # ds) (dropWhile is_digit (tl s)))
      else scan_exp acc s)"

definition scan_number :: "string \<Rightarrow> (string \<times> string) option" where
  "scan_number s =
     (let sg = (if s \<noteq> [] \<and> hd s = CHR ''-'' then ''-'' else []);
          s1 = drop (length sg) s
      in if s1 = [] then None
         else if hd s1 = CHR ''0'' then scan_frac (sg @ ''0'') (tl s1)
         else if is_digit (hd s1) then scan_frac (sg @ takeWhile is_digit s1) (dropWhile is_digit s1)
         else None)"

definition hex_val :: "char \<Rightarrow> nat option" where
  "hex_val c = (let n = (of_char c :: nat) in
     if 48 \<le> n \<and> n \<le> 57 then Some (n - 48)
     else if 97 \<le> n \<and> n \<le> 102 then Some (n - 87)
     else if 65 \<le> n \<and> n \<le> 70 then Some (n - 55)
     else None)"

definition getu4 :: "string \<Rightarrow> nat option" where
  "getu4 s =
     (if length s < 4 then None
      else case (hex_val (s ! 0), hex_val (s ! 1), hex_val (s ! 2), hex_val (s ! 3)) of
        (Some a, Some b, Some c, Some d) \<Rightarrow> Some (((a * 16 + b) * 16 + c) * 16 + d)
      | _ \<Rightarrow> None)"

definition utf8_encode :: "nat \<Rightarrow> string" where
  "utf8_encode n =
     (if n < 0x80 then [char_of n]
      else if n < 0x800 then [char_of (0xC0 + n div 64), char_of (0x80 + n mod 64)]
      else if n < 0x10000 then
        [char_of (0xE0 + n div 4096), char_of (0x80 + n div 64 mod 64), char_of (0x80 + n mod 64)]
      else [char_of (0xF0 + n div 262144), char_of (0x80 + n div 4096 mod 64),
            char_of (0x80 + n div 64 mod 64), char_of (0x80 + n mod 64)])"

definition surrogate_pair :: "nat \<Rightarrow> string \<Rightarrow> nat option" where
  "surrogate_pair n s =
     (if take 2 s = [CHR 0x5C, CHR ''u''] \<and> n < 0xDC00 then
        (case getu4 (drop 2 s) of
           Some m \<Rightarrow> if 0xDC00 \<le> m \<and> m < 0xE000 then Some ((n - 0xD800) * 1024 + (m - 0xDC00) + 0x10000) else None
         | None \<Rightarrow> None)
      else None)"

definition str_cons :: "string \<Rightarrow> error + (string \<times> string) \<Rightarrow> error + (string \<times> string)" where
  "str_cons xs res = (case res of Inl e \<Rightarrow> Inl e | Inr (s, r) \<Rightarrow> Inr (xs @ s, r))"

function json_str :: "string \<Rightarrow> error + (string \<times> string)" where
  "json_str [] = Inl JsonSyntaxError"
| "json_str (c # r) =
     (if c = CHR 0x22 then Inr ([], r)
      else if c = CHR 0x5C then
        (case r of
           [] \<Rightarrow> Inl JsonSyntaxError
         | e # r' \<Rightarrow>
             if e = CHR 0x22 \<or> e = CHR 0x5C \<or> e = CHR ''/'' then str_cons [e] (json_str r')
             else if e = CHR ''b'' then str_cons [CHR 0x08] (json_str r')
             else if e = CHR ''f'' then str_cons [CHR 0x0C] (json_str r')
             else if e = CHR ''n'' then str_cons [CHR 0x0A] (json_str r')
             else if e = CHR ''r'' then str_cons [CHR 0x0D] (json_str r')
             else if e = CHR ''t'' then str_cons [CHR 0x09] (json_str r')
             else if e = CHR ''u'' then
               (case getu4 r' of
                  None \<Rightarrow> Inl JsonSyntaxError
                | Some n \<Rightarrow>
                    if 0xD800 \<le> n \<and> n < 0xE000 then
                      (case surrogate_pair n (drop 4 r') of
                         Some m \<Rightarrow> str_cons (utf8_encode m) (json_str (drop 10 r'))
                       | None \<Rightarrow> str_cons (utf8_encode 0xFFFD) (json_str (drop 4 r')))
                    else str_cons (utf8_encode n) (json_str (drop 4 r')))
             else Inl JsonSyntaxError)
      else if of_char c < (32 :: nat) then Inl JsonSyntaxError
      else str_cons [c] (json_str r))"
  by pat_completeness auto
termination by (relation "measure length") auto

definition json_max_depth :: nat where "json_max_depth = 10000"

fun json_value :: "nat \<Rightarrow> nat \<Rightarrow> string \<Rightarrow> (error + (json \<times> string)) option"
and json_elems :: "nat \<Rightarrow> nat \<Rightarrow> json list \<Rightarrow> string \<Rightarrow> (error + (json \<times> string)) option"
and json_members :: "nat \<Rightarrow> nat \<Rightarrow> (string \<times> json) list \<Rightarrow> string \<Rightarrow> (error + (json \<times> string)) option"
where
  "json_value 0 d s = None"
| "json_value (Suc f) d s =
     (if s = [] then Some (Inl JsonSyntaxError)
      else if hd s = CHR ''{'' then
        (if json_max_depth \<le> d then Some (Inl JsonSyntaxError)
         else let r = skip_ws (tl s) in
           if r \<noteq> [] \<and> hd r = CHR ''}'' then Some (Inr (JObject [], tl r))
           else json_members f (Suc d) [] r)
      else if hd s = CHR ''['' then
        (if json_max_depth \<le> d then Some (Inl JsonSyntaxError)
         else let r = skip_ws (tl s) in
           if r \<noteq> [] \<and> hd r = CHR '']'' then Some (Inr (JArray [], tl r))
           else json_elems f (Suc d) [] r)
      else if hd s = CHR 0x22 then
        Some (case json_str (tl s) of Inl e \<Rightarrow> Inl e | Inr (x, r) \<Rightarrow> Inr (JString x, r))
      else if take 4 s = ''true'' then Some (Inr (JBool True, drop 4 s))
      else if take 5 s = ''false'' then Some (Inr (JBool False, drop 5 s))
      else if take 4 s = ''null'' then Some (Inr (JNull, drop 4 s))
      else Some (case scan_number s of None \<Rightarrow> Inl JsonSyntaxError | Some (n, r) \<Rightarrow> Inr (JNumber n, r)))"
| "json_elems 0 d acc s = None"
| "json_elems (Suc f) d acc s =
     (case json_value f d s of
        None \<Rightarrow> None
      | Some (Inl e) \<Rightarrow> Some (Inl e)
      | Some (Inr (v, r)) \<Rightarrow>
          (let r1 = skip_ws r in
           if r1 \<noteq> [] \<and> hd r1 = CHR '','' then json_elems f d (acc @ [v]) (skip_ws (tl r1))
           else if r1 \<noteq> [] \<and> hd r1 = CHR '']'' then Some (Inr (JArray (acc @ [v]), tl r1))
           else Some (Inl JsonSyntaxError)))"
| "json_members 0 d acc s = None"
| "json_members (Suc f) d acc s =
     (if s \<noteq> [] \<and> hd s = CHR 0x22 then
        (case json_str (tl s) of
           Inl e \<Rightarrow> Some (Inl e)
         | Inr (k, r) \<Rightarrow>
             (let r1 = skip_ws r in
              if r1 \<noteq> [] \<and> hd r1 = CHR '':'' then
                (case json_value f d (skip_ws (tl r1)) of
                   None \<Rightarrow> None
                 | Some (Inl e) \<Rightarrow> Some (Inl e)
                 | Some (Inr (v, r2)) \<Rightarrow>
                     (let r3 = skip_ws r2 in
                      if r3 \<noteq> [] \<and> hd r3 = CHR '','' then
                        json_members f d (acc @ [(k, v)]) (skip_ws (tl r3))
                      else if r3 \<noteq> [] \<and> hd r3 = CHR ''}'' then
                        Some (Inr (JObject (acc @ [(k, v)]), tl r3))
                      else Some (Inl JsonSyntaxError)))
              else Some (Inl JsonSyntaxError)))
      else Some (Inl JsonSyntaxError))"

definition json_decode :: "string \<Rightarrow> error + json" where
  "json_decode s =
     (case json_value (2 * length s + 1) 0 (skip_ws s) of
        None \<Rightarrow> Inl JsonSyntaxError
      | Some (Inl e) \<Rightarrow> Inl e
      | Some (Inr (v, r)) \<Rightarrow> if skip_ws r = [] then Inr v else Inl JsonSyntaxError)"

text \<open>
  For the lemmas: the nesting depth of a value, whether its numbers are JSON numbers
  (\<open>json_text\<close> writes a \<open>JNumber\<close> verbatim), and the characters that may follow a
  value inside an array or an object.
\<close>

fun json_depth :: "json \<Rightarrow> nat" where
  "json_depth (JArray vs) = Suc (foldr max (map json_depth vs) 0)"
| "json_depth (JObject kvs) = Suc (foldr max (map (\<lambda>kv. json_depth (snd kv)) kvs) 0)"
| "json_depth v = 0"

fun json_numbers_ok :: "json \<Rightarrow> bool" where
  "json_numbers_ok (JNumber n) = (scan_number n = Some (n, []))"
| "json_numbers_ok (JArray vs) = list_all json_numbers_ok vs"
| "json_numbers_ok (JObject kvs) = list_all (\<lambda>kv. json_numbers_ok (snd kv)) kvs"
| "json_numbers_ok v = True"

definition delim :: "string \<Rightarrow> bool" where
  "delim r \<longleftrightarrow> r = [] \<or> hd r = CHR '','' \<or> hd r = CHR '']'' \<or> hd r = CHR ''}'' \<or> json_ws (hd r)"

subsection \<open>Lemmas\<close>

lemma hex_val_json_hex: "k < 16 \<Longrightarrow> hex_val (json_hex ! k) = Some k"
proof -
  have "list_all (\<lambda>k. hex_val (json_hex ! k) = Some k) [0..<16]"
    by (simp add: json_hex_def hex_val_def upt_rec)
  then show "k < 16 \<Longrightarrow> ?thesis" by (simp add: list_all_iff)
qed

lemma str_cons_append: "str_cons xs (str_cons ys r) = str_cons (xs @ ys) r"
  by (simp add: str_cons_def split: sum.split)

lemma json_str_escape_char: "json_str (json_escape_char c @ x) = str_cons [c] (json_str x)"
proof -
  let ?b = "of_char c :: nat"
  have b: "?b < 256" by (rule nat_of_char_less_256)
  consider (copy) "128 \<le> ?b \<or> html_safe c" | (esc) "\<not> (128 \<le> ?b \<or> html_safe c)" by blast
  then show ?thesis
  proof cases
    case copy
    then have "c \<noteq> CHR 0x22" "c \<noteq> CHR 0x5C" "\<not> ?b < 32"
      by (auto simp: html_safe_def Let_def)
    with copy show ?thesis by (simp add: json_escape_char_def)
  next
    case esc
    then have lt: "?b < 128" by simp
    show ?thesis
    proof (cases "c = CHR 0x5C \<or> c = CHR 0x22 \<or> c = CHR 0x08 \<or> c = CHR 0x0C \<or> c = CHR 0x0A \<or> c = CHR 0x0D \<or> c = CHR 0x09")
      case True
      with esc show ?thesis by (auto simp: json_escape_char_def html_safe_def)
    next
      case False
      then have e: "json_escape_char c = [CHR 0x5C, CHR ''u'', CHR ''0'', CHR ''0'', json_hex ! (?b div 16), json_hex ! (?b mod 16)]"
        using esc by (simp add: json_escape_char_def Let_def)
      have z: "hex_val (CHR ''0'') = Some 0" by (simp add: hex_val_def)
      have "?b div 16 < 16" "?b mod 16 < 16" using lt by simp_all
      then have "getu4 [CHR ''0'', CHR ''0'', json_hex ! (?b div 16), json_hex ! (?b mod 16)] = Some ?b"
        by (simp add: getu4_def hex_val_json_hex z)
      then have "getu4 ([CHR ''0'', CHR ''0'', json_hex ! (?b div 16), json_hex ! (?b mod 16)] @ x) = Some ?b"
        by (simp add: getu4_def nth_append)
      moreover have "utf8_encode ?b = [c]" using lt by (simp add: utf8_encode_def)
      ultimately show ?thesis using lt by (simp add: e)
    qed
  qed
qed

lemma json_str_quote: "json_str (concat (map json_escape_char s) @ CHR 0x22 # rest) = Inr (s, rest)"
  by (induction s) (simp_all add: json_str_escape_char str_cons_def)

lemma foldr_max_ge: "x \<in> set xs \<Longrightarrow> x \<le> foldr max xs (0 :: nat)"
  by (induction xs) auto

lemma scan_exp_prefix: "scan_exp acc s = Some (a, b) \<Longrightarrow> \<exists>t. a = acc @ t"
  unfolding scan_exp_def Let_def by (auto split: if_splits)

lemma scan_frac_prefix: "scan_frac acc s = Some (a, b) \<Longrightarrow> \<exists>t. a = acc @ t"
  unfolding scan_frac_def Let_def by (auto split: if_splits dest: scan_exp_prefix)

lemma takeWhile_digit_hd: "s \<noteq> [] \<Longrightarrow> is_digit (hd s) \<Longrightarrow> takeWhile is_digit s = hd s # takeWhile is_digit (tl s)"
  by (cases s) auto

lemma scan_number_Some: "scan_number s = Some (a, b) \<Longrightarrow> a \<noteq> [] \<and> (hd a = CHR ''-'' \<or> is_digit (hd a))"
  unfolding scan_number_def Let_def
  by (auto split: if_splits dest!: scan_frac_prefix simp: takeWhile_digit_hd) (simp_all add: is_digit_def)

lemma digits_append:
  assumes "dropWhile is_digit x = []" "delim r"
  shows "takeWhile is_digit (x @ r) = x" "dropWhile is_digit (x @ r) = r"
proof -
  have x: "\<forall>c\<in>set x. is_digit c" using assms(1) by (simp add: dropWhile_eq_Nil_conv)
  have r: "\<not> (r \<noteq> [] \<and> is_digit (hd r))" using assms(2) by (auto simp: delim_def is_digit_def json_ws_def)
  show "takeWhile is_digit (x @ r) = x" using x r by (cases r) (simp_all add: takeWhile_append2)
  show "dropWhile is_digit (x @ r) = r" using x r by (cases r) (simp_all add: dropWhile_append2)
qed

lemma delim_not_num: "delim r \<Longrightarrow> r \<noteq> [] \<Longrightarrow> hd r \<noteq> CHR ''e'' \<and> hd r \<noteq> CHR ''E'' \<and> hd r \<noteq> CHR ''.''"
  by (auto simp: delim_def json_ws_def)

lemma scan_exp_append:
  assumes a: "scan_exp acc s = Some (a, [])" and r: "delim r"
  shows "scan_exp acc (s @ r) = Some (a, r)"
proof (cases "s \<noteq> [] \<and> (hd s = CHR ''e'' \<or> hd s = CHR ''E'')")
  case True
  define r0 where "r0 = tl s"
  define sg where "sg = (if r0 \<noteq> [] \<and> (hd r0 = CHR ''+'' \<or> hd r0 = CHR ''-'') then [hd r0] else [])"
  define r1 where "r1 = drop (length sg) r0"
  have ds: "takeWhile is_digit r1 \<noteq> []" "dropWhile is_digit r1 = []"
      "a = acc @ hd s # sg @ takeWhile is_digit r1"
    using a True unfolding scan_exp_def Let_def r0_def [symmetric] sg_def [symmetric] r1_def [symmetric]
    by (simp_all split: if_splits)
  then have "r1 \<noteq> []" by auto
  then have r0: "r0 \<noteq> []" by (auto simp: r1_def)
  have "tl (s @ r) = r0 @ r" using True by (simp add: r0_def)
  moreover have "(if r0 @ r \<noteq> [] \<and> (hd (r0 @ r) = CHR ''+'' \<or> hd (r0 @ r) = CHR ''-'') then [hd (r0 @ r)] else []) = sg"
    using r0 by (simp add: sg_def)
  moreover have "length sg \<le> length r0" using r0 by (cases r0) (simp_all add: sg_def)
  then have "drop (length sg) (r0 @ r) = r1 @ r" by (simp add: r1_def)
  moreover note digits_append [OF ds(2) r]
  moreover have "takeWhile is_digit r1 = r1" using ds(2) by (simp add: dropWhile_eq_Nil_conv takeWhile_eq_all_conv)
  then have "a = acc @ hd s # sg @ r1" using ds(3) by simp
  ultimately show ?thesis using True \<open>r1 \<noteq> []\<close> by (simp add: scan_exp_def Let_def)
next
  case False
  then have "s = []" "a = acc" using a by (simp_all add: scan_exp_def split: if_splits)
  then show ?thesis using delim_not_num [OF r] by (cases r) (auto simp: scan_exp_def)
qed

lemma digits_append_gen:
  assumes "delim r"
  shows "takeWhile is_digit (t @ r) = takeWhile is_digit t" "dropWhile is_digit (t @ r) = dropWhile is_digit t @ r"
proof -
  show "takeWhile is_digit (t @ r) = takeWhile is_digit t"
  proof (cases "dropWhile is_digit t = []")
    case True
    then show ?thesis using digits_append [OF True assms] by (metis append_Nil2 takeWhile_dropWhile_id)
  next
    case False
    then obtain x where "x \<in> set t" "\<not> is_digit x" by (auto simp: dropWhile_eq_Nil_conv)
    then show ?thesis by (rule takeWhile_append1)
  qed
  show "dropWhile is_digit (t @ r) = dropWhile is_digit t @ r"
  proof (cases "dropWhile is_digit t = []")
    case True
    then show ?thesis using digits_append [OF True assms] by simp
  next
    case False
    then obtain x where "x \<in> set t" "\<not> is_digit x" by (auto simp: dropWhile_eq_Nil_conv)
    then show ?thesis by (rule dropWhile_append1)
  qed
qed

lemma scan_frac_append:
  assumes a: "scan_frac acc s = Some (a, [])" and r: "delim r"
  shows "scan_frac acc (s @ r) = Some (a, r)"
proof (cases "s \<noteq> [] \<and> hd s = CHR ''.''")
  case True
  have ne: "takeWhile is_digit (tl s) \<noteq> []"
    and e: "scan_exp (acc @ CHR ''.'' # takeWhile is_digit (tl s)) (dropWhile is_digit (tl s)) = Some (a, [])"
    using a True unfolding scan_frac_def Let_def by (simp_all split: if_splits)
  have t: "tl (s @ r) = tl s @ r" using True by simp
  show ?thesis
    using True ne scan_exp_append [OF e r] digits_append_gen [OF r, of "tl s"]
    unfolding scan_frac_def Let_def t by simp
next
  case False
  then have e: "scan_exp acc s = Some (a, [])" using a by (cases s) (auto simp: scan_frac_def)
  have "scan_frac acc (s @ r) = scan_exp acc (s @ r)"
    using False delim_not_num [OF r] by (cases s) (auto simp: scan_frac_def)
  then show ?thesis using scan_exp_append [OF e r] by simp
qed

lemma scan_number_append:
  assumes a: "scan_number s = Some (a, [])" and r: "delim r"
  shows "scan_number (s @ r) = Some (a, r)"
proof -
  define sg where "sg = (if s \<noteq> [] \<and> hd s = CHR ''-'' then ''-'' else [])"
  define s1 where "s1 = drop (length sg) s"
  have a': "s1 \<noteq> [] \<and>
      (if hd s1 = CHR ''0'' then scan_frac (sg @ ''0'') (tl s1)
       else if is_digit (hd s1) then scan_frac (sg @ takeWhile is_digit s1) (dropWhile is_digit s1)
       else None) = Some (a, [])"
    using a unfolding scan_number_def Let_def sg_def [symmetric] s1_def [symmetric] by (auto split: if_splits)
  then have "s \<noteq> []" by (auto simp: s1_def)
  then have sg': "(if s @ r \<noteq> [] \<and> hd (s @ r) = CHR ''-'' then ''-'' else []) = sg" by (simp add: sg_def)
  have "length sg \<le> length s" using \<open>s \<noteq> []\<close> by (cases s) (simp_all add: sg_def)
  then have d: "drop (length sg) (s @ r) = s1 @ r" by (simp add: s1_def)
  show ?thesis
  proof (cases "hd s1 = CHR ''0''")
    case True
    then have "scan_frac (sg @ ''0'') (tl s1) = Some (a, [])" using a' by simp
    from scan_frac_append [OF this r] show ?thesis
      using True a' unfolding scan_number_def Let_def sg' d by simp
  next
    case False
    then have dg: "is_digit (hd s1)" "scan_frac (sg @ takeWhile is_digit s1) (dropWhile is_digit s1) = Some (a, [])"
      using a' by (simp_all split: if_splits)
    from scan_frac_append [OF dg(2) r] show ?thesis
      using False dg(1) a' digits_append_gen [OF r, of s1] unfolding scan_number_def Let_def sg' d by simp
  qed
qed

subsection \<open>Errors, consumption and fuel\<close>

lemma str_cons_Inl: "str_cons xs res = Inl e \<longleftrightarrow> res = Inl e"
  by (auto simp: str_cons_def split: sum.splits)

lemma json_str_Cons_Inl:
  assumes "json_str (c # s) = Inl e"
  shows "e = JsonSyntaxError \<or> (\<exists>t. length t < Suc (length s) \<and> json_str t = Inl e)"
  using assms
  apply (simp add: str_cons_Inl split: if_splits list.splits option.splits)
  apply (rule disjI2, rule exI, rule conjI [rotated], assumption, simp)+
  done

lemma json_str_Inl: "json_str s = Inl e \<Longrightarrow> e = JsonSyntaxError"
proof (induction "length s" arbitrary: s rule: less_induct)
  case less
  show ?case
  proof (cases s)
    case Nil
    then show ?thesis using less(2) by simp
  next
    case (Cons c s')
    from json_str_Cons_Inl [OF less(2) [unfolded Cons]] less(1) Cons show ?thesis by auto
  qed
qed
lemma json_parse_Inl:
  "json_value f d s = Some (Inl e) \<Longrightarrow> e = JsonSyntaxError"
  "json_elems f d acc s = Some (Inl e) \<Longrightarrow> e = JsonSyntaxError"
  "json_members f d kacc s = Some (Inl e) \<Longrightarrow> e = JsonSyntaxError"
  by (induction f d s and f d acc s and f d kacc s rule: json_value_json_elems_json_members.induct)
    (auto simp: Let_def split: if_splits option.splits sum.splits dest: json_str_Inl)

lemma json_decode_Inl:
  assumes a: "json_decode s = Inl e"
  shows "e = JsonSyntaxError"
proof (cases "json_value (2 * length s + 1) 0 (skip_ws s)")
  case None
  then show ?thesis using a by (simp add: json_decode_def del: json_value.simps)
next
  case (Some res)
  show ?thesis
  proof (cases res)
    case (Inl e')
    then show ?thesis using a Some json_parse_Inl(1) [of "2 * length s + 1" 0 "skip_ws s" e']
      by (simp add: json_decode_def del: json_value.simps)
  next
    case (Inr p)
    then show ?thesis using a Some
      by (cases p) (simp add: json_decode_def split: if_splits del: json_value.simps)
  qed
qed

lemma scan_exp_split: "scan_exp acc s = Some (a, b) \<Longrightarrow> acc @ s = a @ b"
  unfolding scan_exp_def Let_def
  by (cases s; cases "tl s") (auto split: if_splits)

lemma scan_frac_split: "scan_frac acc s = Some (a, b) \<Longrightarrow> acc @ s = a @ b"
  unfolding scan_frac_def Let_def
  by (cases s) (auto split: if_splits dest: scan_exp_split)

lemma scan_number_split: "scan_number s = Some (a, b) \<Longrightarrow> s = a @ b"
  unfolding scan_number_def Let_def
  by (cases s; cases "tl s") (auto split: if_splits dest!: scan_frac_split)

lemma scan_number_shorter: "scan_number s = Some (a, b) \<Longrightarrow> length b < length s"
  using scan_number_split [of s a b] scan_number_Some [of s a b] by auto

lemma str_cons_Inr: "str_cons xs res = Inr (x, r) \<longleftrightarrow> (\<exists>y. res = Inr (y, r) \<and> x = xs @ y)"
  by (auto simp: str_cons_def split: sum.splits)

lemma json_str_Cons_Inr:
  assumes "json_str (c # s) = Inr (x, r)"
  shows "r = s \<or> (\<exists>t y. length t < Suc (length s) \<and> json_str t = Inr (y, r))"
  using assms
  apply (simp add: str_cons_Inr split: if_splits list.splits option.splits)
  apply (elim exE conjE; rule disjI2, rule exI, rule conjI [rotated], rule exI, assumption, simp)+
  done

lemma json_str_shorter: "json_str s = Inr (x, r) \<Longrightarrow> length r < length s"
proof (induction "length s" arbitrary: s x rule: less_induct)
  case less
  then obtain c s' where s: "s = c # s'" by (cases s) auto
  from json_str_Cons_Inr [OF less(2) [unfolded s]] less(1) [unfolded s] show ?case
    unfolding s by fastforce
qed

lemma skip_ws_length: "length (skip_ws s) \<le> length s"
  by (simp add: skip_ws_def length_dropWhile_le)

lemma json_parse_shorter:
  "json_value f d s = Some (Inr (v, r)) \<Longrightarrow> length r < length s"
  "json_elems f d acc s = Some (Inr (v, r)) \<Longrightarrow> length r < length s"
  "json_members f d kacc s = Some (Inr (v, r)) \<Longrightarrow> length r < length s"
proof (induction f d s and f d acc s and f d kacc s arbitrary: v r and v r and v r
    rule: json_value_json_elems_json_members.induct)
  case (2 f d s)
  show ?case
  proof (cases "s = []")
    case True
    with 2 show ?thesis by simp
  next
    case False
    then have w: "length (skip_ws (tl s)) < length s" using skip_ws_length [of "tl s"] by (cases s) auto
    from 2 False w show ?thesis
      by (auto simp: Let_def split: if_splits option.splits sum.splits
          dest!: json_str_shorter scan_number_shorter) (blast intro: less_trans)+
  qed
next
  case (4 f d acc s)
  obtain v0 r0 where e: "json_value f d s = Some (Inr (v0, r0))"
    using "4.prems" by (auto simp: Let_def split: option.splits sum.splits)
  have l0: "length r0 < length s" using "4.IH"(1) [OF e] .
  show ?case using "4.prems" "4.IH"(2) [OF e refl refl refl] e l0 skip_ws_length [of r0]
      skip_ws_length [of "tl (skip_ws r0)"]
    by (auto simp: Let_def split: if_splits)
next
  case (6 f d kacc s)
  obtain k r0 where q: "s \<noteq> []" "hd s = CHR 0x22" "json_str (tl s) = Inr (k, r0)"
    and c: "skip_ws r0 \<noteq> [] \<and> hd (skip_ws r0) = CHR '':''"
    using "6.prems" by (auto simp: Let_def split: if_splits sum.splits)
  have l0: "length r0 < length s" using json_str_shorter [OF q(3)] q(1) by simp
  obtain v0 r2 where e: "json_value f d (skip_ws (tl (skip_ws r0))) = Some (Inr (v0, r2))"
    using "6.prems" q c by (auto simp: Let_def split: option.splits sum.splits)
  have l2: "length r2 < length (skip_ws (tl (skip_ws r0)))"
    using "6.IH"(1) [OF conjI [OF q(1,2)] q(3) refl refl c e] .
  have w: "length (skip_ws (tl (skip_ws r2))) < length s" "length (tl (skip_ws r2)) < length s"
    using l0 l2 skip_ws_length [of r0] skip_ws_length [of "tl (skip_ws r0)"] skip_ws_length [of r2]
      skip_ws_length [of "tl (skip_ws r2)"] by simp_all
  show ?case
  proof (cases "skip_ws r2 \<noteq> [] \<and> hd (skip_ws r2) = CHR '',''")
    case True
    then have "json_members f d (kacc @ [(k, v0)]) (skip_ws (tl (skip_ws r2))) = Some (Inr (v, r))"
      using "6.prems" q c e by (simp add: Let_def)
    from "6.IH"(2) [OF conjI [OF q(1,2)] q(3) refl refl c e refl refl refl True this] w(1)
    show ?thesis by simp
  next
    case False
    then show ?thesis using "6.prems" q c e w(2) by (auto simp: Let_def split: if_splits)
  qed
qed simp_all

lemma json_parse_fuel:
  "2 * length s < f \<Longrightarrow> json_value f d s \<noteq> None"
  "2 * length s + 1 < f \<Longrightarrow> json_elems f d acc s \<noteq> None"
  "2 * length s + 1 < f \<Longrightarrow> json_members f d kacc s \<noteq> None"
proof (induction f d s and f d acc s and f d kacc s rule: json_value_json_elems_json_members.induct)
  case (2 f d s)
  show ?case
  proof (cases "s = []")
    case False
    then have w: "2 * length (skip_ws (tl s)) + 1 < f"
      using "2.prems" skip_ws_length [of "tl s"] by (cases s) auto
    from 2 False w show ?thesis
      by (auto simp: Let_def split: option.splits sum.splits)
  qed simp
next
  case (4 f d acc s)
  have "json_value f d s \<noteq> None" using "4.IH"(1) "4.prems" by simp
  then obtain res where e: "json_value f d s = Some res" by blast
  show ?case
  proof (cases res)
    case (Inr p)
    obtain v0 r0 where p: "p = (v0, r0)" by (cases p)
    have "length r0 < length s" using json_parse_shorter(1) e Inr p by simp
    then have w: "2 * length (skip_ws (tl (skip_ws r0))) + 1 < f"
      using "4.prems" skip_ws_length [of r0] skip_ws_length [of "tl (skip_ws r0)"] by simp
    show ?thesis using "4.IH"(2) [OF e [unfolded Inr p] refl refl refl _ w] e Inr p
      by (simp add: Let_def)
  qed (simp add: e)
next
  case (6 f d kacc s)
  show ?case
  proof (cases "s \<noteq> [] \<and> hd s = CHR 0x22 \<and> (\<exists>k r0. json_str (tl s) = Inr (k, r0))")
    case True
    then obtain k r0 where q: "s \<noteq> []" "hd s = CHR 0x22" "json_str (tl s) = Inr (k, r0)" by blast
    have l0: "length r0 < length s" using json_str_shorter [OF q(3)] q(1) by simp
    show ?thesis
    proof (cases "skip_ws r0 \<noteq> [] \<and> hd (skip_ws r0) = CHR '':''")
      case c: True
      have w0: "2 * length (skip_ws (tl (skip_ws r0))) < f"
        using "6.prems" l0 skip_ws_length [of r0] skip_ws_length [of "tl (skip_ws r0)"] by simp
      have "json_value f d (skip_ws (tl (skip_ws r0))) \<noteq> None"
        using "6.IH"(1) [OF conjI [OF q(1,2)] q(3) refl refl c w0] .
      then obtain res where e: "json_value f d (skip_ws (tl (skip_ws r0))) = Some res" by blast
      show ?thesis
      proof (cases res)
        case (Inr p)
        obtain v0 r2 where p: "p = (v0, r2)" by (cases p)
        have "length r2 < length (skip_ws (tl (skip_ws r0)))" using json_parse_shorter(1) e Inr p by simp
        then have w: "2 * length (skip_ws (tl (skip_ws r2))) + 1 < f"
          using w0 skip_ws_length [of r2] skip_ws_length [of "tl (skip_ws r2)"] by simp
        show ?thesis
          using "6.IH"(2) [OF conjI [OF q(1,2)] q(3) refl refl c e [unfolded Inr p] refl refl refl _ w]
            q c e Inr p by (simp add: Let_def)
      qed (simp add: q c e Let_def)
    next
      case False
      then show ?thesis using q by (auto simp: Let_def)
    qed
  next
    case False
    then show ?thesis by (auto simp: Let_def split: sum.splits)
  qed
qed simp_all

lemma json_decode_fuel: "json_value (2 * length s + 1) 0 (skip_ws s) \<noteq> None"
  by (rule json_parse_fuel(1)) (use skip_ws_length [of s] in simp)

lemma skip_ws_nows: "t \<noteq> [] \<Longrightarrow> \<not> json_ws (hd t) \<Longrightarrow> skip_ws t = t"
  by (cases t) (simp_all add: skip_ws_def)

lemma json_text_start:
  "json_numbers_ok v \<Longrightarrow> json_text v \<noteq> [] \<and> \<not> json_ws (hd (json_text v))
     \<and> hd (json_text v) \<noteq> CHR '']'' \<and> hd (json_text v) \<noteq> CHR ''}''"
proof (cases v)
  case (JNumber n)
  moreover assume "json_numbers_ok v"
  ultimately have "n \<noteq> []" "hd n = CHR ''-'' \<or> is_digit (hd n)"
    using scan_number_Some [of n n "[]"] by simp_all
  then show ?thesis using JNumber by (auto simp: json_ws_def is_digit_def)
qed (simp_all add: json_ws_def json_quote_def)

lemma json_join_hd: "xs \<noteq> [] \<Longrightarrow> hd xs \<noteq> [] \<Longrightarrow> json_join xs \<noteq> [] \<and> hd (json_join xs) = hd (hd xs)"
  by (induction xs rule: json_join.induct) simp_all

lemma delim_simps [simp]: "delim []" "delim (CHR '','' # r)" "delim (CHR '']'' # r)" "delim (CHR ''}'' # r)"
  by (simp_all add: delim_def)

lemma json_ws_simps [simp]: "\<not> json_ws CHR '',''" "\<not> json_ws CHR '']''" "\<not> json_ws CHR ''}''" "\<not> json_ws CHR '':''"
  by (simp_all add: json_ws_def)

lemma json_elems_text:
  assumes "\<forall>v\<in>set vs. json_numbers_ok v \<and> (\<forall>f d' rest. d' + json_depth v \<le> json_max_depth \<longrightarrow> delim rest \<longrightarrow>
              2 * length (json_text v @ rest) < f \<longrightarrow> json_value f d' (json_text v @ rest) = Some (Inr (v, rest)))"
    and "vs \<noteq> []" "\<forall>v\<in>set vs. d + json_depth v \<le> json_max_depth"
    and "2 * length (json_join (map json_text vs) @ CHR '']'' # rest) + 1 < f"
  shows "json_elems f d acc (json_join (map json_text vs) @ CHR '']'' # rest) = Some (Inr (JArray (acc @ vs), rest))"
  using assms
proof (induction vs arbitrary: acc f)
  case (Cons v vs)
  note IH = Cons.IH and prems = Cons.prems
  obtain f' where f: "f = Suc f'" using prems(4) by (cases f) auto
  show ?case
  proof (cases vs)
    case Nil
    have "json_value f' d (json_text v @ CHR '']'' # rest) = Some (Inr (v, CHR '']'' # rest))"
      using prems Nil f by simp
    then show ?thesis using Nil f by (simp add: skip_ws_def)
  next
    case vs: (Cons w ws)
    let ?J = "json_join (map json_text (w # ws))"
    have w: "json_numbers_ok w" using prems(1) vs by simp
    have j: "?J \<noteq> [] \<and> hd ?J = hd (json_text w)"
      using json_join_hd [of "map json_text (w # ws)"] json_text_start [OF w] by simp
    have sk: "skip_ws (?J @ CHR '']'' # rest) = ?J @ CHR '']'' # rest"
      using j json_text_start [OF w] by (simp add: skip_ws_nows)
    have "json_value f' d (json_text v @ CHR '','' # ?J @ CHR '']'' # rest) = Some (Inr (v, CHR '','' # ?J @ CHR '']'' # rest))"
      using prems vs f by simp
    moreover have "json_elems f' d (acc @ [v]) (?J @ CHR '']'' # rest) = Some (Inr (JArray ((acc @ [v]) @ vs), rest))"
      using IH [where acc = "acc @ [v]" and f = f'] prems vs f by simp
    ultimately show ?thesis using vs f sk by (simp add: skip_ws_def)
  qed
qed simp

lemma json_quote_tl: "json_quote k @ x = CHR 0x22 # concat (map json_escape_char k) @ CHR 0x22 # x"
  by (simp add: json_quote_def)

lemma json_members_text:
  assumes "\<forall>kv\<in>set kvs. json_numbers_ok (snd kv) \<and> (\<forall>f d' rest. d' + json_depth (snd kv) \<le> json_max_depth \<longrightarrow> delim rest \<longrightarrow>
              2 * length (json_text (snd kv) @ rest) < f \<longrightarrow> json_value f d' (json_text (snd kv) @ rest) = Some (Inr (snd kv, rest)))"
    and "kvs \<noteq> []" "\<forall>kv\<in>set kvs. d + json_depth (snd kv) \<le> json_max_depth"
    and "2 * length (json_join (map (\<lambda>(k, v). json_quote k @ CHR '':'' # json_text v) kvs) @ CHR ''}'' # rest) + 1 < f"
  shows "json_members f d acc (json_join (map (\<lambda>(k, v). json_quote k @ CHR '':'' # json_text v) kvs) @ CHR ''}'' # rest)
           = Some (Inr (JObject (acc @ kvs), rest))"
  using assms
proof (induction kvs arbitrary: acc f)
  case (Cons kv kvs)
  note IH = Cons.IH and prems = Cons.prems
  obtain k v where kv: "kv = (k, v)" by (cases kv)
  obtain f' where f: "f = Suc f'" using prems(4) by (cases f) auto
  have v: "json_numbers_ok v" using prems(1) kv by simp
  have sv: "skip_ws (json_text v @ x) = json_text v @ x" for x
    using json_text_start [OF v] by (simp add: skip_ws_nows)
  show ?case
  proof (cases kvs)
    case Nil
    have "json_value f' d (json_text v @ CHR ''}'' # rest) = Some (Inr (v, CHR ''}'' # rest))"
      using prems Nil f kv by simp
    then show ?thesis using Nil f kv sv
      by (simp add: json_quote_tl json_str_quote skip_ws_def [of "CHR '':'' # x" for x] skip_ws_def [of "CHR ''}'' # x" for x])
  next
    case kvs: (Cons kw ws)
    obtain k2 w where kw: "kw = (k2, w)" by (cases kw)
    let ?J = "json_join (map (\<lambda>(k, v). json_quote k @ CHR '':'' # json_text v) (kw # ws))"
    have j: "?J \<noteq> [] \<and> hd ?J = CHR 0x22"
      using json_join_hd [of "map (\<lambda>(k, v). json_quote k @ CHR '':'' # json_text v) (kw # ws)"] kw
      by (simp add: json_quote_def)
    have sk: "skip_ws (?J @ CHR ''}'' # rest) = ?J @ CHR ''}'' # rest"
      using j by (simp add: skip_ws_nows json_ws_def)
    have "json_value f' d (json_text v @ CHR '','' # ?J @ CHR ''}'' # rest) = Some (Inr (v, CHR '','' # ?J @ CHR ''}'' # rest))"
      using prems kvs f kv by simp
    moreover have "json_members f' d (acc @ [(k, v)]) (?J @ CHR ''}'' # rest) = Some (Inr (JObject ((acc @ [(k, v)]) @ kvs), rest))"
      using IH [where acc = "acc @ [(k, v)]" and f = f'] prems kvs f kv by simp
    ultimately show ?thesis using kvs f kv sv sk
      by (simp add: json_quote_tl json_str_quote skip_ws_def [of "CHR '':'' # x" for x] skip_ws_def [of "CHR '','' # x" for x])
  qed
qed simp

lemma num_start_char:
  "c = CHR ''-'' \<or> is_digit c \<Longrightarrow>
   c \<noteq> CHR ''{'' \<and> c \<noteq> CHR ''['' \<and> c \<noteq> CHR 0x22 \<and> c \<noteq> CHR ''t'' \<and> c \<noteq> CHR ''f'' \<and> c \<noteq> CHR ''n''"
  by (auto simp: is_digit_def less_eq_char_def)

lemma json_value_text:
  "json_numbers_ok v \<Longrightarrow> d + json_depth v \<le> json_max_depth \<Longrightarrow> delim rest \<Longrightarrow>
   2 * length (json_text v @ rest) < f \<Longrightarrow> json_value f d (json_text v @ rest) = Some (Inr (v, rest))"
proof (induction v arbitrary: d rest f)
  case JNull
  then show ?case by (cases f) simp_all
next
  case (JBool b)
  then show ?case by (cases f; cases b) simp_all
next
  case (JNumber n)
  obtain f' where f: "f = Suc f'" using JNumber.prems(4) by (cases f) auto
  have n: "n \<noteq> []" "hd n = CHR ''-'' \<or> is_digit (hd n)"
    using scan_number_Some [of n n "[]"] JNumber.prems(1) by simp_all
  then obtain c n' where c: "n = c # n'" "c = CHR ''-'' \<or> is_digit c" by (cases n) auto
  have "scan_number (n @ rest) = Some (n, rest)"
    using scan_number_append JNumber.prems(1,3) by simp
  then show ?case using c f num_start_char [of c] by simp
next
  case (JString x)
  then show ?case by (cases f) (simp_all add: json_quote_tl json_str_quote)
next
  case (JArray vs)
  obtain f' where f: "f = Suc f'" using JArray.prems(4) by (cases f) auto
  have d: "\<not> json_max_depth \<le> d" using JArray.prems(2) by simp
  show ?case
  proof (cases "vs = []")
    case True
    then show ?thesis using f d by (simp add: skip_ws_def)
  next
    case False
    let ?J = "json_join (map json_text vs)"
    have ok: "\<forall>v\<in>set vs. json_numbers_ok v" using JArray.prems(1) by (simp add: list_all_iff)
    have dep: "\<forall>v\<in>set vs. Suc d + json_depth v \<le> json_max_depth"
      using JArray.prems(2) foldr_max_ge [of _ "map json_depth vs"] by fastforce
    have j: "?J \<noteq> [] \<and> hd ?J = hd (json_text (hd vs))"
      using json_join_hd [of "map json_text vs"] json_text_start [of "hd vs"] False ok
      by (simp add: hd_map)
    then have sk: "skip_ws (?J @ CHR '']'' # rest) = ?J @ CHR '']'' # rest"
                  "hd (?J @ CHR '']'' # rest) \<noteq> CHR '']''"
      using json_text_start [of "hd vs"] False ok by (simp_all add: skip_ws_nows)
    have "json_elems f' (Suc d) [] (?J @ CHR '']'' # rest) = Some (Inr (JArray vs, rest))"
      using json_elems_text [of vs "Suc d" rest f' "[]"] JArray.IH ok dep False JArray.prems(3,4) f by simp
    moreover have "json_value f d (json_text (JArray vs) @ rest) = json_elems f' (Suc d) [] (?J @ CHR '']'' # rest)"
      using f d sk by (simp add: Let_def)
    ultimately show ?thesis by simp
  qed
next
  case (JObject kvs)
  obtain f' where f: "f = Suc f'" using JObject.prems(4) by (cases f) auto
  have d: "\<not> json_max_depth \<le> d" using JObject.prems(2) by simp
  show ?case
  proof (cases "kvs = []")
    case True
    then show ?thesis using f d by (simp add: skip_ws_def)
  next
    case False
    let ?J = "json_join (map (\<lambda>(k, v). json_quote k @ CHR '':'' # json_text v) kvs)"
    have ok: "\<forall>kv\<in>set kvs. json_numbers_ok (snd kv)" using JObject.prems(1) by (simp add: list_all_iff)
    have dep: "\<forall>kv\<in>set kvs. Suc d + json_depth (snd kv) \<le> json_max_depth"
      using JObject.prems(2) foldr_max_ge [of _ "map (\<lambda>kv. json_depth (snd kv)) kvs"] by fastforce
    have ih: "\<forall>kv\<in>set kvs. json_numbers_ok (snd kv) \<and> (\<forall>f d' rest. d' + json_depth (snd kv) \<le> json_max_depth \<longrightarrow> delim rest \<longrightarrow>
              2 * length (json_text (snd kv) @ rest) < f \<longrightarrow> json_value f d' (json_text (snd kv) @ rest) = Some (Inr (snd kv, rest)))"
      using JObject.IH ok by (metis prod.exhaust_sel snds.intros)
    have j: "?J \<noteq> [] \<and> hd ?J = CHR 0x22"
      using json_join_hd [of "map (\<lambda>(k, v). json_quote k @ CHR '':'' # json_text v) kvs"] False
      by (cases "hd kvs") (simp add: hd_map json_quote_def)
    then have sk: "skip_ws (?J @ CHR ''}'' # rest) = ?J @ CHR ''}'' # rest"
      by (simp add: skip_ws_nows json_ws_def)
    have "json_members f' (Suc d) [] (?J @ CHR ''}'' # rest) = Some (Inr (JObject kvs, rest))"
      using json_members_text [of kvs "Suc d" rest f' "[]"] ih dep False JObject.prems(3,4) f by simp
    moreover have "json_value f d (json_text (JObject kvs) @ rest) = json_members f' (Suc d) [] (?J @ CHR ''}'' # rest)"
      using f d sk j by (simp add: Let_def)
    ultimately show ?thesis by simp
  qed
qed

lemma json_decode_text: "json_numbers_ok v \<Longrightarrow> json_depth v \<le> json_max_depth \<Longrightarrow> json_decode (json_text v) = Inr v"
  using json_value_text [of v 0 "[]" "2 * length (json_text v) + 1"] json_text_start [of v]
  by (simp add: json_decode_def skip_ws_nows skip_ws_def [of "[]"])

lemma skip_ws_append: "list_all json_ws w \<Longrightarrow> skip_ws (w @ t) = skip_ws t"
  by (induction w) (simp_all add: skip_ws_def)

lemma skip_ws_all: "list_all json_ws w \<Longrightarrow> skip_ws w = []"
  using skip_ws_append [of w "[]"] by (simp add: skip_ws_def)

text \<open>The decoder accepts the text of a value with any white space around it.\<close>

lemma json_decode_ws:
  assumes w: "list_all json_ws w1" "list_all json_ws w2"
    and v: "json_numbers_ok v" "json_depth v \<le> json_max_depth"
  shows "json_decode (w1 @ json_text v @ w2) = Inr v"
proof -
  have s: "skip_ws (w1 @ json_text v @ w2) = json_text v @ w2"
    using skip_ws_append [OF w(1)] json_text_start [OF v(1)] by (simp add: skip_ws_nows)
  have d: "delim w2" using w(2) by (cases w2) (simp_all add: delim_def)
  have "json_value (2 * length (w1 @ json_text v @ w2) + 1) 0 (json_text v @ w2) = Some (Inr (v, w2))"
    by (rule json_value_text [OF v(1) _ d]) (use v(2) in simp_all)
  then show ?thesis using s skip_ws_all [OF w(2)] by (simp add: json_decode_def del: json_value.simps)
qed

text \<open>A string token after white space, with only white space after it, is a JSON string.\<close>

lemma json_decode_str:
  assumes "list_all json_ws w" "json_str t = Inr (x, r)" "list_all json_ws r"
  shows "json_decode (w @ CHR 0x22 # t) = Inr (JString x)"
proof -
  have "skip_ws (w @ CHR 0x22 # t) = CHR 0x22 # t"
    using skip_ws_append [OF assms(1)] by (simp add: skip_ws_def json_ws_def)
  then show ?thesis using assms(2) skip_ws_all [OF assms(3)] by (simp add: json_decode_def)
qed

end
