(* ===== verification/JsonCodec.thy ===== *)
theory JsonCodec
  imports JsonDecode
begin

text \<open>
  \<open>json.Marshal\<close> and \<open>json.Unmarshal\<close> as the adapter of \<open>src/primarykey.go\<close> and the
  tests call them: on a Go string, and on a pointer to a struct with one field that has
  its own \<open>MarshalJSON\<close>/\<open>UnmarshalJSON\<close> methods. Inputs and outputs are bytes
  (strings of the model). \<open>json.Unmarshal\<close> first checks that the whole input is JSON
  text (\<open>checkValid\<close>, a \<open>SyntaxError\<close> leaves the target untouched) and then stores the
  value it denotes; for a string target, as the package documents, \<open>null\<close> has no effect
  and is no error, and a value that is neither a string nor \<open>null\<close> is an
  \<open>UnmarshalTypeError\<close> naming its kind that leaves the target unchanged.
\<close>

definition json_marshal_string :: "string \<Rightarrow> string \<times> error option" where
  "json_marshal_string s = (json_quote s, None)"

text \<open>\<open>json.Unmarshal(b, &s)\<close>: the target's value after the call, and the error.\<close>

definition json_unmarshal_string :: "string \<Rightarrow> string \<Rightarrow> string \<times> error option" where
  "json_unmarshal_string b s =
     (case json_decode b of
        Inl e \<Rightarrow> (s, Some e)
      | Inr (JString v) \<Rightarrow> (v, None)
      | Inr JNull \<Rightarrow> (s, None)
      | Inr v \<Rightarrow> (s, Some (UnmarshalTypeError (json_kind v))))"

subsection \<open>Structs with one field behind a pointer\<close>

text \<open>
  \<open>json.Marshal\<close> and \<open>json.Unmarshal\<close> on a pointer to a struct with one exported field
  \<open>n\<close> of a type with \<open>MarshalJSON\<close>/\<open>UnmarshalJSON\<close> methods (\<open>enc\<close>, \<open>dec\<close>).
  The struct is reached through \<open>get\<close> and \<open>upd\<close>, and \<open>zero\<close> is its zero value.

  Marshalling a nil pointer writes \<open>null\<close>. Otherwise the field's method is called
  (\<open>marshalerEncoder\<close>), its failure is wrapped in a \<open>MarshalerError\<close>, and its bytes
  are checked to be JSON text (\<open>appendCompact\<close>; a syntax error is wrapped in a
  \<open>MarshalerError\<close> too) and written compactly inside \<open>{"n":...}\<close>. The compacted
  bytes are written here as \<open>json_text\<close> of the value they denote; the two agree on
  every output that is already compact, as the ID's is.

  Unmarshalling checks the whole text first; a syntax error leaves the pointer as it
  was. \<open>null\<close> sets the pointer to nil; any other value first allocates the struct if
  the pointer is nil (\<open>indirect\<close>). An object then has each member whose key names the
  field decoded into it, in order, the first failure of the field's method ending the
  decoding; keys match exactly or under \<open>foldName\<close>, which upper-cases ASCII letters;
  other members are ignored. A value that is not an object is an
  \<open>UnmarshalTypeError\<close>. The field's method receives the member's value as text: the
  model passes \<open>json_text\<close> of the decoded member, where the library passes the
  member's bytes as written; both denote the same value.
\<close>

definition fold_name :: "string \<Rightarrow> string" where
  "fold_name k = map (\<lambda>c. let n = (of_char c :: nat) in
     if 97 \<le> n \<and> n \<le> 122 then char_of (n - 32) else c) k"

definition json_marshal_struct_ptr ::
  "string \<Rightarrow> ('s \<Rightarrow> 'f) \<Rightarrow> ('f \<Rightarrow> string \<times> error option) \<Rightarrow> 's option \<Rightarrow> error + string" where
  "json_marshal_struct_ptr n get enc p =
     (case p of
        None \<Rightarrow> Inr ''null''
      | Some st \<Rightarrow>
          (case enc (get st) of
             (b, None) \<Rightarrow>
               (case json_decode b of
                  Inl e \<Rightarrow> Inl (MarshalerError e)
                | Inr v \<Rightarrow> Inr (json_text (JObject [(n, v)])))
           | (b, Some e) \<Rightarrow> Inl (MarshalerError e)))"

fun json_object_fields ::
  "string \<Rightarrow> ('s \<Rightarrow> 'f) \<Rightarrow> ('f \<Rightarrow> 's \<Rightarrow> 's) \<Rightarrow> (string \<Rightarrow> 'f \<Rightarrow> 'f \<times> error option) \<Rightarrow>
   (string \<times> json) list \<Rightarrow> 's \<Rightarrow> 's \<times> error option" where
  "json_object_fields n get upd dec [] st = (st, None)"
| "json_object_fields n get upd dec ((k, v) # kvs) st =
     (if k = n \<or> fold_name k = fold_name n then
        (case dec (json_text v) (get st) of
           (f, None) \<Rightarrow> json_object_fields n get upd dec kvs (upd f st)
         | (f, Some e) \<Rightarrow> (upd f st, Some e))
      else json_object_fields n get upd dec kvs st)"

definition json_unmarshal_struct_ptr ::
  "string \<Rightarrow> ('s \<Rightarrow> 'f) \<Rightarrow> ('f \<Rightarrow> 's \<Rightarrow> 's) \<Rightarrow> (string \<Rightarrow> 'f \<Rightarrow> 'f \<times> error option) \<Rightarrow> 's \<Rightarrow>
   string \<Rightarrow> 's option \<Rightarrow> 's option \<times> error option" where
  "json_unmarshal_struct_ptr n get upd dec zero b p =
     (case json_decode b of
        Inl e \<Rightarrow> (p, Some e)
      | Inr v \<Rightarrow>
          (let st = (case p of None \<Rightarrow> zero | Some s \<Rightarrow> s) in
           case v of
             JNull \<Rightarrow> (None, None)
           | JObject kvs \<Rightarrow> (case json_object_fields n get upd dec kvs st of (st', e) \<Rightarrow> (Some st', e))
           | _ \<Rightarrow> (Some st, Some (UnmarshalTypeError (json_kind v)))))"

subsection \<open>Lemmas\<close>

lemma json_decode_quote: "json_decode (json_quote s) = Inr (JString s)"
  using json_decode_text [of "JString s"] by (simp add: json_max_depth_def)

lemma json_unmarshal_quote: "json_unmarshal_string (json_quote v) s = (v, None)"
  by (simp add: json_unmarshal_string_def json_decode_quote)

lemma json_unmarshal_string_cases:
  "json_unmarshal_string b s = (s', Some e) \<Longrightarrow> s' = s"
  by (auto simp: json_unmarshal_string_def split: sum.splits json.splits)

text \<open>
  The round trip of a struct whose field's method writes a JSON string that its
  unmarshalling method reads back.
\<close>

lemma json_struct_ptr_roundtrip:
  assumes enc: "enc (get st) = (json_quote x, None)" and dec: "\<And>f. dec (json_quote x) f = (get st, None)"
    and upd: "upd (get st) zero' = st" "\<And>s. upd (get st) s = upd (get st) zero'"
  shows "json_marshal_struct_ptr n get enc (Some st) = Inr (json_text (JObject [(n, JString x)]))"
    "json_unmarshal_struct_ptr n get upd dec zero' (json_text (JObject [(n, JString x)])) p = (Some st, None)"
proof -
  show "json_marshal_struct_ptr n get enc (Some st) = Inr (json_text (JObject [(n, JString x)]))"
    by (simp add: json_marshal_struct_ptr_def enc json_decode_quote)
  have t: "json_decode (json_text (JObject [(n, JString x)])) = Inr (JObject [(n, JString x)])"
    using json_decode_text [of "JObject [(n, JString x)]"] by (simp add: json_max_depth_def)
  have "upd (get st) (case p of None \<Rightarrow> zero' | Some s \<Rightarrow> s) = st"
    using upd by (cases p) simp_all
  then show "json_unmarshal_struct_ptr n get upd dec zero' (json_text (JObject [(n, JString x)])) p = (Some st, None)"
    unfolding json_unmarshal_struct_ptr_def t by (simp add: dec)
qed

end
