(* ===== verification/PrimaryKey.thy ===== *)
theory PrimaryKey
  imports ShortUUID JsonCodec
begin

text \<open>
  \<open>src/primarykey.go\<close>: the type \<open>ID [16]byte\<close> and its methods and functions, each
  a definition named after the Go one. A method with a pointer receiver (\<open>Scan\<close>,
  \<open>UnmarshalJSON\<close>) takes the receiver's value and returns its value afterwards with the
  returned error; a function returning \<open>(ID, error)\<close> returns the pair; \<open>MustDecode\<close>
  returns an \<open>outcome\<close>, since it may panic; so does \<open>New\<close>, which takes the result of
  reading 16 bytes from the random source (\<open>None\<close> when the read fails).
\<close>

type_synonym ID = "byte list"

definition ID_UUID :: "ID \<Rightarrow> uuid" where
  "ID_UUID i = i"

definition ID_String :: "ID \<Rightarrow> string" where
  "ID_String i = short_encode (ID_UUID i)"

definition Empty :: ID where
  "Empty = replicate 16 0"

definition ID_Scan :: "driver_value \<Rightarrow> ID \<Rightarrow> ID \<times> error option" where
  "ID_Scan src i =
     (case uuid_scan src uuid_nil of
        (u, Some err) \<Rightarrow> (i, Some err)
      | (u, None) \<Rightarrow> (u, None))"

definition ID_Value :: "ID \<Rightarrow> driver_value \<times> error option" where
  "ID_Value i = (DvString (uuid_string (ID_UUID i)), None)"

definition ID_MarshalJSON :: "ID \<Rightarrow> string \<times> error option" where
  "ID_MarshalJSON i = json_marshal_string (ID_String i)"

text \<open>
  \<open>Decode\<close> returns \<open>ID(u)\<close> with the decoder's error; on an error the decoder's
  \<open>u\<close> is \<open>uuid.Nil\<close>.
\<close>

definition Decode :: "string \<Rightarrow> ID \<times> error option" where
  "Decode src =
     (case short_decode src of
        Inl err \<Rightarrow> (uuid_nil, Some err)
      | Inr u \<Rightarrow> (u, None))"

definition ID_UnmarshalJSON :: "string \<Rightarrow> ID \<Rightarrow> ID \<times> error option" where
  "ID_UnmarshalJSON b i =
     (case json_unmarshal_string b '''' of
        (s, Some err) \<Rightarrow> (i, Some err)
      | (s, None) \<Rightarrow>
          (case Decode s of
             (v, Some err) \<Rightarrow> (i, Some err)
           | (v, None) \<Rightarrow> (v, None)))"

definition MustDecode :: "string \<Rightarrow> ID outcome" where
  "MustDecode src =
     (case Decode src of
        (i, Some err) \<Rightarrow> Panics err
      | (i, None) \<Rightarrow> Returns i)"

definition Encode :: "ID \<Rightarrow> string" where
  "Encode i = ID_String i"

definition New :: "byte list option \<Rightarrow> ID outcome" where
  "New rnd = uuid_new rnd"

definition FromBytes :: "byte list \<Rightarrow> ID \<times> error option" where
  "FromBytes b =
     (case uuid_from_bytes b of
        Inl err \<Rightarrow> (Empty, Some err)
      | Inr uid \<Rightarrow> (uid, None))"

subsection \<open>Lemmas\<close>

lemma Empty_wf: "uuid_wf Empty"
  by (simp add: uuid_wf_def Empty_def)

lemma uuid_nil_Empty: "uuid_nil = Empty"
  by (simp add: Empty_def uuid_nil_def)

lemma Encode_short_encode: "Encode i = short_encode i"
  by (simp add: Encode_def ID_String_def ID_UUID_def)

lemma Encode_Empty: "Encode Empty = ''2222222222222222222222''"
  by (simp add: Encode_short_encode short_encode_def num_to_string_def encoded_length_def
      be_nat_def Empty_def lsb_digits.simps default_alphabet_def numeral_simps)

lemma Decode_cases:
  "Decode s = (case short_decode s of Inl e \<Rightarrow> (Empty, Some e) | Inr u \<Rightarrow> (u, None))"
  by (simp add: Decode_def uuid_nil_Empty split: sum.split)

lemma ID_Scan_cases:
  "ID_Scan src i = (case uuid_scan src Empty of (u, Some err) \<Rightarrow> (i, Some err) | (u, None) \<Rightarrow> (u, None))"
  by (simp add: ID_Scan_def uuid_nil_Empty)


lemma Decode_short_encode: "uuid_wf u \<Longrightarrow> Decode (short_encode u) = (u, None)"
  by (simp add: Decode_def short_decode_short_encode)

lemma Scan_uuid_string: "uuid_wf u \<Longrightarrow> ID_Scan (DvString (uuid_string u)) j = (u, None)"
  by (simp add: ID_Scan_def uuid_parse_uuid_string)

lemma UnmarshalJSON_String:
  "uuid_wf i \<Longrightarrow> json_decode b = Inr (JString (ID_String i)) \<Longrightarrow> ID_UnmarshalJSON b j = (i, None)"
  by (simp add: ID_UnmarshalJSON_def json_unmarshal_string_def ID_String_def ID_UUID_def Decode_short_encode)

lemma UnmarshalJSON_error_keeps: "ID_UnmarshalJSON b i = (j, Some e) \<Longrightarrow> j = i"
  by (auto simp: ID_UnmarshalJSON_def split: prod.splits option.splits)

lemma Scan_error_keeps: "ID_Scan src i = (j, Some e) \<Longrightarrow> j = i"
  by (auto simp: ID_Scan_def split: prod.splits option.splits)

lemma New_Some: "New (Some r) = Returns (r[6 := (r ! 6 AND 0x0f) OR 0x40, 8 := (r ! 8 AND 0x3f) OR 0x80])"
  by (simp add: New_def uuid_new_def uuid_new_random_def)

lemma New_None: "New None = Panics RandomReadFailed"
  by (simp add: New_def uuid_new_def uuid_new_random_def)

lemma short_decode_overflow:
  assumes "c \<in> set default_alphabet" "c \<noteq> CHR ''2''" "22 \<le> length t"
    "set t \<subseteq> set default_alphabet"
  shows "short_decode (c # t) = Inl ShortOverflow"
proof -
  have sub: "set (c # t) \<subseteq> set default_alphabet" using assms(1,4) by simp
  obtain ds where ds: "c # t = map (\<lambda>d. default_alphabet ! d) ds" "all_below 57 ds"
    using in_alphabet_digits [OF sub] by (elim exE conjE) (rule that)
  then obtain d ds' where d: "ds = d # ds'" "c = default_alphabet ! d"
    "t = map (\<lambda>d. default_alphabet ! d) ds'"
    by (cases ds) auto
  have "d \<noteq> 0"
  proof
    assume "d = 0"
    then have "c = CHR ''2''" using d(2) by (simp add: default_alphabet_def)
    with assms(2) show False by simp
  qed
  then have "57 ^ length ds' \<le> d * 57 ^ length ds'" by simp
  moreover have "(2::nat) ^ 128 \<le> 57 ^ 22" by simp
  moreover have "(57::nat) ^ 22 \<le> 57 ^ length ds'"
  proof (rule power_increasing)
    show "22 \<le> length ds'" using assms(3) d(3) by simp
  qed simp
  moreover have "digits_val 57 0 ds = d * 57 ^ length ds' + digits_val 57 0 ds'"
    unfolding d(1) by (rule digits_val_Cons)
  ultimately have big: "2 ^ 128 \<le> digits_val 57 0 ds" by linarith
  show ?thesis
    using big string_to_num_digits [OF ds(2), of 0] \<open>ds = d # ds'\<close>
    unfolding ds(1) by (simp add: short_decode_def)
qed

text \<open>
  C1. Decoding the short form of an ID gives the ID back, without error
  (\<open>Decode (Encode id) == id\<close>, spec section 3).
\<close>

theorem Decode_Encode: "uuid_wf i \<Longrightarrow> Decode (Encode i) = (i, None)"
  by (simp add: Decode_def Encode_short_encode short_decode_short_encode)

theorem Decode_Encode_witness: "uuid_wf Empty \<and> Decode (Encode Empty) = (Empty, None)"
  using Decode_Encode [of Empty] Empty_wf by simp

text \<open>
  C2. The value \<open>Value\<close> hands to the database scans back into the same ID, whatever
  the receiver held before, without error.
\<close>

theorem Scan_Value: "uuid_wf i \<Longrightarrow> ID_Scan (fst (ID_Value i)) j = (i, None)"
  by (simp add: ID_Scan_def ID_Value_def ID_UUID_def uuid_parse_uuid_string)

theorem Scan_Value_witness: "uuid_wf Empty \<and> ID_Scan (fst (ID_Value Empty)) [] = (Empty, None)"
  using Scan_Value [of Empty "[]"] Empty_wf by simp

text \<open>
  C3. The bytes \<open>MarshalJSON\<close> produces unmarshal, by \<open>UnmarshalJSON\<close>, into the
  same ID, without error.
\<close>

theorem UnmarshalJSON_MarshalJSON:
  "uuid_wf i \<Longrightarrow> ID_UnmarshalJSON (fst (ID_MarshalJSON i)) j = (i, None)"
  by (simp add: ID_UnmarshalJSON_def ID_MarshalJSON_def json_marshal_string_def json_unmarshal_quote
      ID_String_def ID_UUID_def Decode_short_encode)

theorem UnmarshalJSON_MarshalJSON_witness:
  "uuid_wf Empty \<and> ID_UnmarshalJSON (fst (ID_MarshalJSON Empty)) [] = (Empty, None)"
  using UnmarshalJSON_MarshalJSON [of Empty "[]"] Empty_wf by simp

text \<open>
  C7. The short form of an ID has exactly 22 characters, all from the alphabet.
\<close>

theorem Encode_shape:
  "uuid_wf i \<Longrightarrow> length (Encode i) = 22 \<and> set (Encode i) \<subseteq> set default_alphabet"
  by (simp add: Encode_short_encode short_encode_shape)

theorem Encode_shape_witness:
  "uuid_wf Empty \<and> length (Encode Empty) = 22 \<and> set (Encode Empty) \<subseteq> set default_alphabet"
  using Encode_shape [of Empty] Empty_wf by simp

text \<open>
  C8. The long form \<open>Value\<close> stores has 36 characters: hyphens at positions 8, 13, 18
  and 23 and lower-case hexadecimal digits everywhere else.
\<close>

theorem Value_shape:
  "uuid_wf i \<Longrightarrow> \<exists>s. ID_Value i = (DvString s, None) \<and> length s = 36 \<and>
     (\<forall>k<36. if k \<in> {8, 13, 18, 23} then s ! k = CHR ''-'' else s ! k \<in> set hextable)"
  using uuid_string_shape by (simp add: ID_Value_def ID_UUID_def)

theorem Value_shape_witness:
  "uuid_wf Empty \<and> (\<exists>s. ID_Value Empty = (DvString s, None) \<and> length s = 36 \<and>
     (\<forall>k<36. if k \<in> {8, 13, 18, 23} then s ! k = CHR ''-'' else s ! k \<in> set hextable))"
  using Value_shape [OF Empty_wf] Empty_wf by simp

text \<open>
  C9. \<open>UnmarshalJSON\<close> depends only on the JSON value its input denotes: any JSON text
  for the string that is the short form of an ID, with any white space around it and any
  spelling of its characters (escapes included), sets the receiver to that ID without
  error.
\<close>

theorem UnmarshalJSON_any_spelling:
  "uuid_wf i \<Longrightarrow> json_decode b = Inr (JString (ID_String i)) \<Longrightarrow> ID_UnmarshalJSON b j = (i, None)"
  by (simp add: ID_UnmarshalJSON_def json_unmarshal_string_def ID_String_def ID_UUID_def
      Decode_short_encode)

theorem UnmarshalJSON_any_spelling_witness:
  "uuid_wf Empty \<and>
   json_decode (CHR '' '' # CHR 0x22 # CHR 0x5C # ''u0032'' @ ''222222222222222222222'' @ [CHR 0x22, CHR 0x0A])
     = Inr (JString (ID_String Empty)) \<and>
   ID_UnmarshalJSON (CHR '' '' # CHR 0x22 # CHR 0x5C # ''u0032'' @ ''222222222222222222222'' @ [CHR 0x22, CHR 0x0A]) Empty
     = (Empty, None)"
proof -
  have "json_str (CHR 0x5C # ''u0032'' @ ''222222222222222222222'' @ [CHR 0x22, CHR 0x0A])
      = Inr (''2222222222222222222222'', [CHR 0x0A])"
    by (simp add: getu4_def hex_val_def utf8_encode_def char_of_def bit_0 str_cons_def)
  then have d: "json_decode (CHR '' '' # CHR 0x22 # CHR 0x5C # ''u0032'' @ ''222222222222222222222'' @ [CHR 0x22, CHR 0x0A])
      = Inr (JString (ID_String Empty))"
    using json_decode_str [of "'' ''"] Encode_Empty by (simp add: Encode_def json_ws_def)
  show ?thesis using UnmarshalJSON_any_spelling [OF Empty_wf d] Empty_wf d by simp
qed

text \<open>
  C10. What \<open>Decode\<close> returns for every string over the alphabet, read as the base-57
  digits \<open>ds\<close>: the empty string is an error; otherwise the digits are a big-endian
  numeral, and \<open>Decode\<close> returns the ID whose 16 big-endian bytes are its value when
  that value is below \<open>2^128\<close>, and the all-zero ID with an overflow error from
  \<open>2^128\<close> on. (Strings with other characters are C11.)
\<close>

theorem Decode_digits:
  "all_below 57 ds \<Longrightarrow>
   Decode (map (\<lambda>d. default_alphabet ! d) ds) =
     (if ds = [] then (Empty, Some EmptyShortString)
      else if digits_val 57 0 ds < 2 ^ 128 then (nat_to_be 16 (digits_val 57 0 ds), None)
      else (Empty, Some ShortOverflow))"
  by (simp add: Decode_cases short_decode_def string_to_num_digits)

theorem Decode_digits_witness:
  "all_below 57 [1, 0] \<and> Decode ''32'' = (nat_to_be 16 57, None)"
proof -
  have a: "all_below 57 [1, 0]" by (simp add: all_below_def)
  have m: "map (\<lambda>d. default_alphabet ! d) [1, 0] = ''32''" by (simp add: default_alphabet_def)
  show ?thesis using Decode_digits [OF a] a unfolding m by simp
qed

text \<open>
  C11. A string with a character outside the alphabet does not decode: \<open>Decode\<close> returns
  the empty ID with an error.
\<close>

theorem Decode_bad_char:
  "c \<in> set s \<Longrightarrow> c \<notin> set default_alphabet \<Longrightarrow> \<exists>e. Decode s = (Empty, Some e)"
  using string_to_num_bad_char [of c s 0]
  by (auto simp: Decode_cases short_decode_def)

theorem Decode_bad_char_witness:
  "CHR ''1'' \<in> set ''1234123441234'' \<and> CHR ''1'' \<notin> set default_alphabet \<and>
   (\<exists>e. Decode ''1234123441234'' = (Empty, Some e))"
proof -
  have "CHR ''1'' \<in> set ''1234123441234''" "CHR ''1'' \<notin> set default_alphabet"
    by (simp_all add: default_alphabet_def)
  then show ?thesis using Decode_bad_char [of "CHR ''1''" "''1234123441234''"] by blast
qed

text \<open>
  C12. A string of alphabet characters whose value is \<open>2^128\<close> or more does not decode:
  a first character other than \<open>2\<close> (digit 0) followed by 22 or more characters overflows
  the 128 bits, and \<open>Decode\<close> reports it.
\<close>

theorem Decode_overflow:
  "c \<in> set default_alphabet \<Longrightarrow> c \<noteq> CHR ''2'' \<Longrightarrow> 22 \<le> length t \<Longrightarrow>
   set t \<subseteq> set default_alphabet \<Longrightarrow> Decode (c # t) = (Empty, Some ShortOverflow)"
  by (simp add: Decode_cases short_decode_overflow)

theorem Decode_overflow_witness:
  "CHR ''3'' \<in> set default_alphabet \<and> CHR ''3'' \<noteq> CHR ''2'' \<and>
   22 \<le> length (''2222222222222222222222'') \<and>
   set (''2222222222222222222222'') \<subseteq> set default_alphabet \<and>
   Decode (CHR ''3'' # ''2222222222222222222222'') = (Empty, Some ShortOverflow)"
proof -
  have h: "CHR ''3'' \<in> set default_alphabet" "CHR ''3'' \<noteq> CHR ''2''"
    "22 \<le> length (''2222222222222222222222'')"
    "set (''2222222222222222222222'') \<subseteq> set default_alphabet"
    by (simp_all add: default_alphabet_def)
  show ?thesis using Decode_overflow [OF h] h by simp
qed

text \<open>
  C13. Scanning SQL \<open>NULL\<close> (\<open>nil\<close>) succeeds and sets the receiver to the empty ID,
  whatever it held: \<open>Scan\<close> scans into a fresh zero \<open>uuid.UUID\<close> and copies it into
  the receiver.
\<close>

theorem Scan_nil_resets: "ID_Scan DvNil i = (Empty, None)"
  by (simp add: ID_Scan_cases)

text \<open>
  C14. When \<open>Scan\<close> or \<open>UnmarshalJSON\<close> fails the receiver keeps its value.
\<close>

theorem errors_keep_receiver:
  "(ID_Scan src i = (j, Some e) \<longrightarrow> j = i) \<and> (ID_UnmarshalJSON b i = (j', Some e') \<longrightarrow> j' = i)"
  using Scan_error_keeps UnmarshalJSON_error_keeps by blast

theorem errors_keep_receiver_witness:
  "ID_Scan (DvInt 123) Empty = (Empty, Some (UnsupportedSourceType ''int'')) \<and>
   ID_UnmarshalJSON ''tru'' Empty = (Empty, Some JsonSyntaxError) \<and> Empty = Empty"
proof -
  have s: "ID_Scan (DvInt 123) Empty = (Empty, Some (UnsupportedSourceType ''int''))"
    by (simp add: ID_Scan_cases)
  have u: "ID_UnmarshalJSON ''tru'' Empty = (Empty, Some JsonSyntaxError)"
    by (simp add: ID_UnmarshalJSON_def json_unmarshal_string_def) code_simp
  show ?thesis
    using errors_keep_receiver [of "DvInt 123" Empty Empty "UnsupportedSourceType ''int''" "''tru''"
        Empty JsonSyntaxError] s u by simp
qed

text \<open>
  C15. A driver value that is neither \<open>nil\<close>, nor text, nor a byte buffer is refused
  with an unsupported-source-type error naming its type, and the receiver is unchanged.
\<close>

theorem Scan_unsupported:
  "src \<noteq> DvNil \<Longrightarrow> (\<forall>s. src \<noteq> DvString s) \<Longrightarrow> (\<forall>b. src \<noteq> DvBytes b) \<Longrightarrow>
   ID_Scan src i = (i, Some (UnsupportedSourceType (dv_type_name src))) \<and>
   error_kind (UnsupportedSourceType (dv_type_name src)) = KUnsupportedSourceType"
  by (cases src) (simp_all add: ID_Scan_cases)

theorem Scan_unsupported_witness:
  "DvInt 123 \<noteq> DvNil \<and> (\<forall>s. DvInt 123 \<noteq> DvString s) \<and> (\<forall>b. DvInt 123 \<noteq> DvBytes b) \<and>
   ID_Scan (DvInt 123) Empty = (Empty, Some (UnsupportedSourceType ''int''))"
  using Scan_unsupported [of "DvInt 123" Empty] by simp

text \<open>
  C16. A byte buffer of 16 bytes is copied into the receiver; a buffer of any other
  length is refused with an invalid-length error and the receiver is unchanged.
\<close>

theorem Scan_bytes:
  "ID_Scan (DvBytes b) i =
     (if length b = 16 then (b, None) else (i, Some (InvalidByteCount (length b))))"
  by (simp add: ID_Scan_cases uuid_from_bytes_def)

text \<open>
  C17. Besides the canonical form, \<open>Scan\<close> accepts the braced form, the
  \<open>urn:uuid:\<close> form and the 32 hexadecimal digits without hyphens of an ID, and each
  sets the receiver to that ID.
\<close>

theorem Scan_long_forms:
  "uuid_wf i \<Longrightarrow>
     ID_Scan (DvString (CHR ''{'' # uuid_string i @ ''}'')) j = (i, None) \<and>
     ID_Scan (DvString (''urn:uuid:'' @ uuid_string i)) j = (i, None) \<and>
     ID_Scan (DvString (hex_encode i)) j = (i, None)"
proof -
  assume wf: "uuid_wf i"
  show ?thesis using uuid_parse_forms [OF wf] by (simp add: ID_Scan_cases)
qed

theorem Scan_long_forms_witness:
  "uuid_wf Empty \<and>
   ID_Scan (DvString (CHR ''{'' # uuid_string Empty @ ''}'')) Empty = (Empty, None) \<and>
   ID_Scan (DvString (''urn:uuid:'' @ uuid_string Empty)) Empty = (Empty, None) \<and>
   ID_Scan (DvString (hex_encode Empty)) Empty = (Empty, None)"
  using Scan_long_forms [OF Empty_wf, of Empty] Empty_wf by simp

text \<open>
  C18. Text of a length the parser does not know (not 32, 36, 38 or 45 bytes) is refused
  with a parse error that reports the length; the receiver is unchanged.
\<close>

theorem Scan_bad_length:
  "length s \<notin> {32, 36, 38, 45} \<Longrightarrow>
   ID_Scan (DvString s) i = (i, Some (ScanFailed (InvalidLength (length s)))) \<and>
   error_kind (ScanFailed (InvalidLength (length s))) = KParseError"
  by (simp add: ID_Scan_cases uuid_parse_def)

theorem Scan_bad_length_witness:
  "length ''not-a-uuid'' \<notin> {32, 36, 38, 45} \<and>
   ID_Scan (DvString ''not-a-uuid'') Empty = (Empty, Some (ScanFailed (InvalidLength 10)))"
  using Scan_bad_length [of "''not-a-uuid''" Empty] by simp

text \<open>
  C19. \<open>FromBytes\<close> accepts exactly the 16-byte buffers, copying them; any other length
  gives the empty ID and an invalid-length error.
\<close>

theorem FromBytes_spec:
  "FromBytes b = (if length b = 16 then (b, None) else (Empty, Some (InvalidByteCount (length b)))) \<and>
   error_kind (InvalidByteCount (length b)) = KInvalidLength"
  by (simp add: FromBytes_def uuid_from_bytes_def)

text \<open>
  C20. \<open>MustDecode\<close> of the short form of an ID returns that ID and does not panic.
\<close>

theorem MustDecode_Encode: "uuid_wf i \<Longrightarrow> MustDecode (Encode i) = Returns i"
  by (simp add: MustDecode_def Decode_def Encode_short_encode short_decode_short_encode)

theorem MustDecode_Encode_witness: "uuid_wf Empty \<and> MustDecode (Encode Empty) = Returns Empty"
  using MustDecode_Encode [OF Empty_wf] Empty_wf by simp

text \<open>
  C21. \<open>MustDecode\<close> panics on a string with a character outside the alphabet.
\<close>

theorem MustDecode_bad_char:
  "c \<in> set s \<Longrightarrow> c \<notin> set default_alphabet \<Longrightarrow> \<exists>e. MustDecode s = Panics e"
  using string_to_num_bad_char [of c s 0]
  by (auto simp: MustDecode_def Decode_cases short_decode_def)

theorem MustDecode_bad_char_witness:
  "CHR ''1'' \<in> set ''1234123441234'' \<and> CHR ''1'' \<notin> set default_alphabet \<and>
   (\<exists>e. MustDecode ''1234123441234'' = Panics e)"
proof -
  have h: "CHR ''1'' \<in> set ''1234123441234''" "CHR ''1'' \<notin> set default_alphabet"
    by (simp_all add: default_alphabet_def)
  show ?thesis using MustDecode_bad_char [OF h] h by blast
qed

text \<open>
  C22. \<open>UnmarshalJSON\<close> refuses bytes that are not JSON text with the syntax error of
  \<open>json.Unmarshal\<close> (a parse error), and a JSON value that is neither a string nor
  \<open>null\<close> with a type-mismatch error naming the value's kind; either way the receiver
  keeps its value.
\<close>

theorem UnmarshalJSON_rejects:
  "(json_decode b = Inl e \<longrightarrow> ID_UnmarshalJSON b i = (i, Some JsonSyntaxError) \<and> error_kind e = KParseError) \<and>
   (json_decode b = Inr v \<longrightarrow> json_kind v \<notin> {''string'', ''null''} \<longrightarrow>
      ID_UnmarshalJSON b i = (i, Some (UnmarshalTypeError (json_kind v))) \<and>
      error_kind (UnmarshalTypeError (json_kind v)) = KTypeMismatch)"
proof (intro conjI impI)
  assume d: "json_decode b = Inl e"
  then have "e = JsonSyntaxError" by (rule json_decode_Inl)
  with d show "ID_UnmarshalJSON b i = (i, Some JsonSyntaxError)" "error_kind e = KParseError"
    by (simp_all add: ID_UnmarshalJSON_def json_unmarshal_string_def)
next
  assume d: "json_decode b = Inr v" and k: "json_kind v \<notin> {''string'', ''null''}"
  then show "ID_UnmarshalJSON b i = (i, Some (UnmarshalTypeError (json_kind v)))"
    by (cases v) (simp_all add: ID_UnmarshalJSON_def json_unmarshal_string_def)
  show "error_kind (UnmarshalTypeError (json_kind v)) = KTypeMismatch" by simp
qed

theorem UnmarshalJSON_rejects_witness:
  "json_decode ''[1, 2'' = Inl JsonSyntaxError \<and> ID_UnmarshalJSON ''[1, 2'' Empty = (Empty, Some JsonSyntaxError) \<and>
   json_decode ''123'' = Inr (JNumber ''123'') \<and> json_kind (JNumber ''123'') \<notin> {''string'', ''null''} \<and>
   ID_UnmarshalJSON ''123'' Empty = (Empty, Some (UnmarshalTypeError ''number''))"
proof -
  have a: "json_decode ''[1, 2'' = Inl JsonSyntaxError" by code_simp
  have b: "json_decode ''123'' = Inr (JNumber ''123'')" by code_simp
  show ?thesis
    using UnmarshalJSON_rejects [of "''[1, 2''" JsonSyntaxError Empty]
      UnmarshalJSON_rejects [of "''123''" _ Empty "JNumber ''123''"] a b by simp
qed

text \<open>
  C23. A JSON \<open>null\<close> is not a no-op for \<open>UnmarshalJSON\<close>: \<open>json.Unmarshal\<close> leaves
  the string empty without error, and decoding the empty string fails, so the call
  returns a parse error (not a type mismatch) and leaves the receiver unchanged.
\<close>

theorem UnmarshalJSON_null: "ID_UnmarshalJSON ''null'' i = (i, Some EmptyShortString)"
proof -
  have "json_decode ''null'' = Inr JNull" using json_decode_text [of JNull] by simp
  then show ?thesis by (simp add: ID_UnmarshalJSON_def json_unmarshal_string_def Decode_cases short_decode_def)
qed

text \<open>
  C24. The adapters return values of the types their clients require: \<open>Value\<close> returns,
  without error, a value \<open>database/sql\<close> accepts from a driver (\<open>driver.IsValue\<close>),
  and \<open>MarshalJSON\<close> returns, without error, JSON text (\<open>json.Marshal\<close> checks it
  before it embeds it) that denotes a JSON string, the short form.
\<close>

theorem adapter_output_types:
  "driver_is_value (fst (ID_Value i)) \<and> snd (ID_Value i) = None \<and>
   snd (ID_MarshalJSON i) = None \<and> json_decode (fst (ID_MarshalJSON i)) = Inr (JString (ID_String i))"
  by (simp add: ID_Value_def ID_MarshalJSON_def json_marshal_string_def json_decode_quote)

text \<open>
  C25. When the random source delivers its 16 bytes, \<open>New\<close> returns 16 bytes with the
  version-4 nibble in byte 6 and the RFC 4122 variant bits in byte 8, keeping every other
  random bit; when the read fails, \<open>New\<close> panics with an error of the random-source kind.
\<close>

theorem New_version_variant:
  "length r = 16 \<Longrightarrow>
   (case New (Some r) of
      Returns u \<Rightarrow>
        uuid_wf u \<and> u ! 6 AND 0xf0 = 0x40 \<and> u ! 8 AND 0xc0 = 0x80 \<and>
        u ! 6 AND 0x0f = r ! 6 AND 0x0f \<and> u ! 8 AND 0x3f = r ! 8 AND 0x3f \<and>
        (\<forall>k<16. k \<noteq> 6 \<longrightarrow> k \<noteq> 8 \<longrightarrow> u ! k = r ! k)
    | Panics e \<Rightarrow> False) \<and>
   New None = Panics RandomReadFailed \<and> error_kind RandomReadFailed = KRandomSourceError"
  by (simp add: New_Some New_None uuid_wf_def new_random_bytes)

theorem New_version_variant_witness:
  "length Empty = 16 \<and> (case New (Some Empty) of Returns u \<Rightarrow> u ! 6 AND 0xf0 = 0x40 | Panics e \<Rightarrow> False)"
proof -
  have l: "length Empty = 16" by (simp add: Empty_def)
  show ?thesis using New_version_variant [OF l] l by (auto split: outcome.splits)
qed

end
