(* ===== verification/PrimaryKeyTest.thy ===== *)
theory PrimaryKeyTest
  imports PrimaryKey
begin

text \<open>
  \<open>src/primarykey_test.go\<close>: the test vector and each Go test as a boolean definition
  over the model that is true exactly when the test passes (every \<open>t.Errorf\<close>,
  \<open>t.Fatalf\<close> or \<open>t.Error\<close> it can reach makes it false; a panic the test does not
  recover makes it false). \<open>new(ID)\<close> is the zero array \<open>replicate 16 0\<close>; \<open>Scan(123)\<close>
  receives a Go \<open>int\<close>. The JSON tests go through \<open>json.Marshal\<close> and
  \<open>json.Unmarshal\<close> on a \<open>*model\<close> (the theory \<open>JsonCodec\<close>), on the bytes the
  tests write and compare.
  The theorems: the short-form, long-form and JSON tests pass, and the JSON round trip
  of a \<open>model\<close> holding any ID. \<open>TestEmpty\<close> and \<open>TestNew\<close> are modelled but
  need no theorem: the first compares \<open>Empty()\<close> with its own definition and the
  second checks the length of a \<open>[16]byte\<close>.
\<close>

definition testUUIDBytes :: "byte list" where
  "testUUIDBytes =
     [0x7d, 0x44, 0x48, 0x40,
      0x9d, 0xc0,
      0x11, 0xd1,
      0xb2, 0x45,
      0x5f, 0xfd, 0xce, 0x74, 0xfa, 0xd2]"

definition TestIDString :: bool where
  "TestIDString =
     (case FromBytes testUUIDBytes of
        (i, Some err) \<Rightarrow> False
      | (i, None) \<Rightarrow> ID_String i = ''QJQQv92onGb5t9gCsNLDgT'')"

definition TestIDToUUID :: bool where
  "TestIDToUUID =
     (case FromBytes testUUIDBytes of
        (i, Some err) \<Rightarrow> False
      | (i, None) \<Rightarrow> uuid_string (ID_UUID i) = ''7d444840-9dc0-11d1-b245-5ffdce74fad2'')"

definition TestIDScan :: bool where
  "TestIDScan =
     (snd (ID_Scan (DvString ''7d444840-9dc0-11d1-b245-5ffdce74fad2'') (replicate 16 0)) = None \<and>
      snd (ID_Scan (DvBytes testUUIDBytes) (replicate 16 0)) = None \<and>
      snd (ID_Scan DvNil (replicate 16 0)) = None \<and>
      snd (ID_Scan (DvInt 123) (replicate 16 0)) \<noteq> None)"

definition TestIDValue :: bool where
  "TestIDValue =
     (case FromBytes testUUIDBytes of
        (i, Some err) \<Rightarrow> False
      | (i, None) \<Rightarrow>
          (case ID_Value i of
             (value, err) \<Rightarrow> err = None \<and> value = DvString ''7d444840-9dc0-11d1-b245-5ffdce74fad2''))"

definition TestDecode :: bool where
  "TestDecode =
     (case Decode ''QJQQv92onGb5t9gCsNLDgT'' of
        (i, Some err) \<Rightarrow> False
      | (i, None) \<Rightarrow> list_all (\<lambda>(k, b). i ! k = b) (enumerate 0 testUUIDBytes))"

definition TestMustDecodeValid :: bool where
  "TestMustDecodeValid =
     (case MustDecode ''QJQQv92onGb5t9gCsNLDgT'' of
        Panics err \<Rightarrow> False
      | Returns i \<Rightarrow> list_all (\<lambda>(k, b). i ! k = b) (enumerate 0 testUUIDBytes))"

definition TestMustDecodeInvalid :: bool where
  "TestMustDecodeInvalid =
     (case MustDecode ''1234123441234'' of Panics err \<Rightarrow> True | Returns i \<Rightarrow> False)"

definition TestEncode :: bool where
  "TestEncode =
     (case FromBytes testUUIDBytes of
        (i, Some err) \<Rightarrow> False
      | (i, None) \<Rightarrow> Encode i = ''QJQQv92onGb5t9gCsNLDgT'')"

definition TestEmpty :: bool where
  "TestEmpty = (Empty = replicate 16 0)"

text \<open>\<open>TestNew\<close> for the result of the random read; a panic in \<open>New\<close> fails the test.\<close>

definition TestNew :: "byte list option \<Rightarrow> bool" where
  "TestNew rnd = (case New rnd of Panics e \<Rightarrow> False | Returns i \<Rightarrow> length i = 16)"

text \<open>The struct \<open>model\<close> both JSON tests declare, and the library calls on a pointer to it.\<close>

record model =
  model_ID :: "byte list"

definition unmarshal_model :: "string \<Rightarrow> model option \<Rightarrow> model option \<times> error option" where
  "unmarshal_model =
     json_unmarshal_struct_ptr ''ID'' model_ID (\<lambda>i m. m\<lparr>model_ID := i\<rparr>) ID_UnmarshalJSON
       \<lparr>model_ID = replicate 16 0\<rparr>"

definition marshal_model :: "model option \<Rightarrow> error + string" where
  "marshal_model = json_marshal_struct_ptr ''ID'' model_ID ID_MarshalJSON"

definition TestUnmarshalJSON :: bool where
  \<open>TestUnmarshalJSON =
     (case unmarshal_model ''{"ID": "gXeZJmzG3xwqWdJeumvbFy"}'' None of
        (m, Some err) \<Rightarrow> False
      | (None, None) \<Rightarrow> False
      | (Some m, None) \<Rightarrow> ID_String (model_ID m) = ''gXeZJmzG3xwqWdJeumvbFy'')\<close>

definition TestMarshalJSON :: bool where
  \<open>TestMarshalJSON =
     (case MustDecode ''gXeZJmzG3xwqWdJeumvbFy'' of
        Panics e \<Rightarrow> False
      | Returns i \<Rightarrow>
          (case marshal_model (Some \<lparr>model_ID = i\<rparr>) of
             Inl err \<Rightarrow> False
           | Inr b \<Rightarrow> b = ''{"ID":"gXeZJmzG3xwqWdJeumvbFy"}''))\<close>

subsection \<open>Lemmas\<close>

lemma testUUIDBytes_wf: "uuid_wf testUUIDBytes"
  by (simp add: uuid_wf_def testUUIDBytes_def)

lemma Decode_test_vector: "Decode ''QJQQv92onGb5t9gCsNLDgT'' = (testUUIDBytes, None)"
  by (simp add: Decode_def short_decode_def alphabet_index_def default_alphabet_def alphabet_len_def
      nat_to_be_def testUUIDBytes_def numeral_simps)

lemma String_test_vector: "ID_String testUUIDBytes = ''QJQQv92onGb5t9gCsNLDgT''"
  by (simp add: testUUIDBytes_def ID_String_def ID_UUID_def short_encode_def num_to_string_def
      encoded_length_def be_nat_def lsb_digits.simps default_alphabet_def)

lemma uuid_string_test_vector: "uuid_string testUUIDBytes = ''7d444840-9dc0-11d1-b245-5ffdce74fad2''"
  by (simp add: testUUIDBytes_def uuid_string_def hex_encode_def hex_byte_def hextable_def)

lemma FromBytes_test_vector: "FromBytes testUUIDBytes = (testUUIDBytes, None)"
  by (simp add: FromBytes_def uuid_from_bytes_def testUUIDBytes_def)

lemma Decode_json_vector: "\<exists>u. short_decode ''gXeZJmzG3xwqWdJeumvbFy'' = Inr u"
  by (simp add: short_decode_def alphabet_index_def default_alphabet_def alphabet_len_def numeral_simps)

lemma alphabet_html_safe: "list_all html_safe default_alphabet"
  by (simp add: default_alphabet_def html_safe_def)

lemma json_decode_test_text:
  \<open>json_decode ''{"ID": "gXeZJmzG3xwqWdJeumvbFy"}'' = Inr (JObject [(''ID'', JString ''gXeZJmzG3xwqWdJeumvbFy'')])\<close>
  by code_simp

lemma json_quote_Encode: "uuid_wf i \<Longrightarrow> json_quote (Encode i) = CHR 0x22 # Encode i @ [CHR 0x22]"
  using short_encode_shape [of i] alphabet_html_safe
  by (intro json_quote_safe) (auto simp: Encode_short_encode list_all_iff)

text \<open>
  C26. The short-form tests pass: \<open>TestIDString\<close>, \<open>TestEncode\<close>, \<open>TestDecode\<close>,
  \<open>TestMustDecodeValid\<close> and \<open>TestMustDecodeInvalid\<close> (the test vector short-encodes
  to \<open>QJQQv92onGb5t9gCsNLDgT\<close>, which decodes back to it, and \<open>MustDecode\<close> panics on
  \<open>1234123441234\<close>).
\<close>

theorem short_form_tests:
  "TestIDString \<and> TestEncode \<and> TestDecode \<and> TestMustDecodeValid \<and> TestMustDecodeInvalid"
proof (intro conjI)
  show "TestIDString" by (simp add: TestIDString_def FromBytes_test_vector String_test_vector)
  show "TestEncode" by (simp add: TestEncode_def FromBytes_test_vector Encode_def String_test_vector)
  show "TestDecode" by (simp add: TestDecode_def Decode_test_vector testUUIDBytes_def)
  show "TestMustDecodeValid"
    by (simp add: TestMustDecodeValid_def MustDecode_def Decode_test_vector testUUIDBytes_def)
  show "TestMustDecodeInvalid"
    by (simp add: TestMustDecodeInvalid_def MustDecode_def Decode_def short_decode_def
        alphabet_index_def default_alphabet_def)
qed

text \<open>
  C27. The long-form and persistence tests pass: \<open>TestIDToUUID\<close>, \<open>TestIDValue\<close>
  (the vector's long form is \<open>7d444840-9dc0-11d1-b245-5ffdce74fad2\<close>) and
  \<open>TestIDScan\<close> (text, bytes and \<open>nil\<close> scan without error, an \<open>int\<close> fails).
\<close>

theorem long_form_tests: "TestIDToUUID \<and> TestIDValue \<and> TestIDScan"
proof (intro conjI)
  show "TestIDToUUID"
    by (simp add: TestIDToUUID_def FromBytes_test_vector ID_UUID_def uuid_string_test_vector)
  show "TestIDValue"
    by (simp add: TestIDValue_def FromBytes_test_vector ID_Value_def ID_UUID_def uuid_string_test_vector)
  show "TestIDScan"
    by (simp add: TestIDScan_def ID_Scan_cases uuid_parse_def parse_dashed_def dashed_offsets_def
        xtob_def xvalue_def uuid_from_bytes_def testUUIDBytes_def)
qed

text \<open>
  C28. The JSON tests pass: unmarshalling \<open>{"ID": "gXeZJmzG3xwqWdJeumvbFy"}\<close> into a
  \<open>*model\<close> gives an ID whose \<open>String()\<close> is that text, and marshalling a model holding
  \<open>MustDecode("gXeZJmzG3xwqWdJeumvbFy")\<close> writes \<open>{"ID":"gXeZJmzG3xwqWdJeumvbFy"}\<close>.
\<close>

theorem json_tests: "TestUnmarshalJSON \<and> TestMarshalJSON"
proof -
  obtain u where u: "short_decode ''gXeZJmzG3xwqWdJeumvbFy'' = Inr u" using Decode_json_vector by blast
  have e: "short_encode u = ''gXeZJmzG3xwqWdJeumvbFy''" using short_encode_short_decode [OF u] by simp
  have m: "marshal_model (Some \<lparr>model_ID = u\<rparr>) = Inr (json_text (JObject [(''ID'', JString (short_encode u))]))"
    by (simp add: marshal_model_def json_marshal_struct_ptr_def ID_MarshalJSON_def json_marshal_string_def
        ID_String_def ID_UUID_def json_decode_quote del: json_text.simps)
  have "TestUnmarshalJSON"
    using u e unfolding TestUnmarshalJSON_def unmarshal_model_def json_unmarshal_struct_ptr_def json_decode_test_text
    by (simp add: ID_UnmarshalJSON_def json_unmarshal_quote Decode_def ID_String_def ID_UUID_def)
  moreover have "TestMarshalJSON"
    using u e m by (simp add: TestMarshalJSON_def MustDecode_def Decode_def json_quote_def
      json_escape_char_def html_safe_def)
  ultimately show ?thesis ..
qed

text \<open>
  C29. The serializer round trip of spec section 8 for every ID: \<open>json.Marshal\<close> of a
  \<open>model\<close> holding the ID writes \<open>{"ID":"<short form>"}\<close> (the short form needs no
  escaping), and \<open>json.Unmarshal\<close> of those bytes into any \<open>*model\<close> gives a model
  holding the same ID and no error.
\<close>

theorem model_json_roundtrip:
  \<open>uuid_wf i \<Longrightarrow>
   marshal_model (Some \<lparr>model_ID = i\<rparr>) = Inr (''{"ID":"'' @ Encode i @ ''"}'') \<and>
   unmarshal_model (''{"ID":"'' @ Encode i @ ''"}'') p = (Some \<lparr>model_ID = i\<rparr>, None)\<close>
proof -
  assume wf: "uuid_wf i"
  have enc: "ID_MarshalJSON i = (json_quote (Encode i), None)"
    by (simp add: ID_MarshalJSON_def json_marshal_string_def Encode_def)
  have dec: "ID_UnmarshalJSON (json_quote (Encode i)) f = (i, None)" for f
    using UnmarshalJSON_String [OF wf] json_decode_quote by (simp add: Encode_def)
  have t: \<open>json_text (JObject [(''ID'', JString (Encode i))]) = ''{"ID":"'' @ Encode i @ ''"}''\<close>
    using json_quote_Encode [OF wf] by (simp add: json_quote_def json_escape_char_def html_safe_def)
  have p: "ID_MarshalJSON (model_ID \<lparr>model_ID = i\<rparr>) = (json_quote (Encode i), None)"
    "\<And>f. ID_UnmarshalJSON (json_quote (Encode i)) f = (model_ID \<lparr>model_ID = i\<rparr>, None)"
    "\<lparr>model_ID = replicate 16 0\<rparr>\<lparr>model_ID := model_ID \<lparr>model_ID = i\<rparr>\<rparr> = \<lparr>model_ID = i\<rparr>"
    "\<And>s :: model. s\<lparr>model_ID := model_ID \<lparr>model_ID = i\<rparr>\<rparr> =
       \<lparr>model_ID = replicate 16 0\<rparr>\<lparr>model_ID := model_ID \<lparr>model_ID = i\<rparr>\<rparr>"
    using enc dec by simp_all
  note rt = json_struct_ptr_roundtrip [where get = model_ID and upd = "\<lambda>i m. m\<lparr>model_ID := i\<rparr>"
      and st = "\<lparr>model_ID = i\<rparr>" and x = "Encode i" and n = "''ID''" and enc = ID_MarshalJSON
      and dec = ID_UnmarshalJSON and zero' = "\<lparr>model_ID = replicate 16 0\<rparr>", OF p]
  show ?thesis
    using rt t by (simp add: marshal_model_def unmarshal_model_def del: json_text.simps)
qed

theorem model_json_roundtrip_witness:
  \<open>uuid_wf Empty \<and> marshal_model (Some \<lparr>model_ID = Empty\<rparr>) = Inr ''{"ID":"2222222222222222222222"}'' \<and>
   unmarshal_model ''{"ID":"2222222222222222222222"}'' None = (Some \<lparr>model_ID = Empty\<rparr>, None)\<close>
  using model_json_roundtrip [OF Empty_wf, of None] Empty_wf Encode_Empty by simp

end
