(* ===== verification/UUID_Parse.thy ===== *)
theory UUID_Parse
  imports UUID
begin

text \<open>
  The language \<open>uuid.Parse\<close> accepts and what it returns, beyond the round trip of
  \<open>UUID\<close>: a digit of either case is accepted and a parsed UUID prints as the lower-cased
  input (\<open>uuid_parse_canonical\<close>); a 36-character text parses exactly when it has hyphens
  at positions 8, 13, 18 and 23 and hexadecimal digits elsewhere (\<open>parse_dashed_ok\<close>);
  every failure is a parse error (\<open>uuid_parse_Inl\<close>).
\<close>

unbundle bit_operations_syntax

subsection \<open>Hexadecimal digits of either case\<close>

text \<open>
  A digit \<open>xvalue\<close> accepts is, lower-cased, the \<open>hextable\<close> entry of its value, so a
  parsed byte prints back as the two digits it was read from, lower-cased.
\<close>

lemma of_char_hextable: "k < 16 \<Longrightarrow> of_char (hextable ! k) = (if k < 10 then 48 + k else 87 + k)"
proof -
  have "list_all (\<lambda>k. of_char (hextable ! k) = (if k < 10 then 48 + k else 87 + (k :: nat))) [0..<16]"
    by (simp add: hextable_def upt_rec)
  then show "k < 16 \<Longrightarrow> ?thesis" by (simp add: all_less_list_all [symmetric])
qed

lemma xvalue_Some: "xvalue c = Some h \<Longrightarrow> unat h < 16 \<and> hextable ! unat h = ascii_lower c"
proof -
  assume x: "xvalue c = Some h"
  let ?n = "of_char c :: nat"
  have n: "?n < 256" by (rule nat_of_char_less_256)
  consider (d) "48 \<le> ?n" "?n \<le> 57" "h = of_nat (?n - 48)"
    | (l) "97 \<le> ?n" "?n \<le> 102" "h = of_nat (?n - 87)"
    | (u) "65 \<le> ?n" "?n \<le> 70" "h = of_nat (?n - 55)"
    using x by (auto simp: xvalue_def Let_def split: if_splits)
  then have "unat h < 16 \<and> of_char (hextable ! unat h) = (of_char (ascii_lower c) :: nat)"
  proof cases
    case d
    then have "unat h = ?n - 48" using n by (simp only: unat_of_nat) simp
    with d show ?thesis by (simp add: of_char_hextable ascii_lower_def Let_def)
  next
    case l
    then have "unat h = ?n - 87" using n by (simp only: unat_of_nat) simp
    with l show ?thesis by (simp add: of_char_hextable ascii_lower_def Let_def) arith
  next
    case u
    then have "unat h = ?n - 55" using n by (simp only: unat_of_nat) simp
    with u show ?thesis by (simp add: of_char_hextable ascii_lower_def Let_def) arith
  qed
  then show ?thesis by (simp add: of_char_eq_iff)
qed

lemma bit_nibble: "unat (h :: byte) < 16 \<Longrightarrow> bit h n \<Longrightarrow> n < 4"
proof (rule ccontr)
  assume h: "unat h < 16" "bit h n" "\<not> n < 4"
  then have "bit (unat h) n" by (simp add: bit_unsigned_iff)
  moreover have "(16 :: nat) \<le> 2 ^ n"
    using power_increasing [of 4 n "2 :: nat"] h(3) by simp
  then have "unat h div 2 ^ n = 0" using h(1) by simp
  ultimately show False by (simp add: bit_iff_odd)
qed

lemma nibble_join:
  assumes "unat h < 16" "unat l < 16"
  shows "drop_bit 4 (push_bit 4 h OR l) = (h :: byte)" "(push_bit 4 h OR l) AND 0x0f = l"
proof -
  have bh: "bit h n \<Longrightarrow> n < 4" for n using assms(1) by (rule bit_nibble)
  have bl: "bit l n \<Longrightarrow> n < 4" for n using assms(2) by (rule bit_nibble)
  have m: "(0x0f :: byte) = mask 4" by (simp add: mask_eq_exp_minus_1)
  show "drop_bit 4 (push_bit 4 h OR l) = h"
    by (rule bit_word_eqI) (auto simp: bit_simps dest: bl bh)
  show "(push_bit 4 h OR l) AND 0x0f = l"
    unfolding m by (rule bit_word_eqI) (auto simp: bit_simps dest: bl)
qed

lemma xtob_Some: "xtob a b = Some v \<Longrightarrow> hex_byte v = [ascii_lower a, ascii_lower b]"
proof -
  assume "xtob a b = Some v"
  then obtain h l where hl: "xvalue a = Some h" "xvalue b = Some l" "v = push_bit 4 h OR l"
    by (auto simp: xtob_def split: option.splits)
  have a: "unat h < 16 \<and> hextable ! unat h = ascii_lower a" by (rule xvalue_Some [OF hl(1)])
  have b: "unat l < 16 \<and> hextable ! unat l = ascii_lower b" by (rule xvalue_Some [OF hl(2)])
  have "drop_bit 4 v = h" "v AND 0x0f = l"
    unfolding hl(3) using a b by (simp_all only: nibble_join)
  with a b show ?thesis by (simp add: hex_byte_def)
qed

subsection \<open>The byte loop of \<open>Parse\<close>\<close>

lemma parse_bytes_at_append:
  "parse_bytes_at s (xs @ ys) = Inr u \<Longrightarrow>
   parse_bytes_at s xs = Inr (take (length xs) u) \<and> parse_bytes_at s ys = Inr (drop (length xs) u)"
  by (induction xs arbitrary: u) (auto split: option.splits sum.splits)

lemma parse_bytes_at_hex:
  "parse_bytes_at s xs = Inr u \<Longrightarrow> hex_encode u = concat (map (\<lambda>x. [ascii_lower (s ! x), ascii_lower (s ! Suc x)]) xs)"
  by (induction xs arbitrary: u) (auto simp: hex_encode_def split: option.splits sum.splits dest: xtob_Some)

lemma parse_bytes_at_Inl: "parse_bytes_at s xs = Inl e \<Longrightarrow> e = InvalidFormat"
  by (induction xs) (auto split: option.splits sum.splits)

lemma parse_bytes_at_ok:
  "(\<exists>u. parse_bytes_at s xs = Inr u) \<longleftrightarrow> list_all (\<lambda>x. xvalue (s ! x) \<noteq> None \<and> xvalue (s ! Suc x) \<noteq> None) xs"
  by (induction xs) (auto simp: xtob_def split: option.splits sum.splits)

lemma ascii_lower_hyphen: "ascii_lower CHR ''-'' = CHR ''-''"
  by (simp add: ascii_lower_def)

lemma parse_bytes_at_split:
  assumes "parse_bytes_at s (xs @ ys) = Inr u" "length xs = k"
  shows "parse_bytes_at s xs = Inr (take k u)" "parse_bytes_at s ys = Inr (drop k u)"
  using parse_bytes_at_append [OF assms(1)] assms(2) by simp_all

subsection \<open>The canonical text of a parsed UUID\<close>

lemma parse_dashed_canonical:
  assumes p: "parse_dashed s = Inr u" and l: "36 \<le> length s"
  shows "uuid_string u = map ascii_lower (take 36 s)"
proof -
  let ?h = "\<lambda>xs. concat (map (\<lambda>x. [ascii_lower (s ! x), ascii_lower (s ! Suc x)]) xs)"
  have h: "s ! 8 = CHR ''-''" "s ! 13 = CHR ''-''" "s ! 18 = CHR ''-''" "s ! 23 = CHR ''-''"
    and pb: "parse_bytes_at s ([0, 2, 4, 6] @ [9, 11] @ [14, 16] @ [19, 21] @ [24, 26, 28, 30, 32, 34]) = Inr u"
    using p by (simp_all add: parse_dashed_def dashed_offsets_def split: if_splits)
  note p1 = parse_bytes_at_split [OF pb, of 4]
  note p2 = parse_bytes_at_split [OF p1(2), of 2]
  note p3 = parse_bytes_at_split [OF p2(2), of 2]
  note p4 = parse_bytes_at_split [OF p3(2), of 2]
  have "hex_encode (take 4 u) = ?h [0, 2, 4, 6]" using parse_bytes_at_hex [OF p1(1)] by simp
  moreover have "hex_encode (take 2 (drop 4 u)) = ?h [9, 11]" using parse_bytes_at_hex [OF p2(1)] by simp
  moreover have "hex_encode (take 2 (drop 6 u)) = ?h [14, 16]" using parse_bytes_at_hex [OF p3(1)] by simp
  moreover have "hex_encode (take 2 (drop 8 u)) = ?h [19, 21]" using parse_bytes_at_hex [OF p4(1)] by simp
  moreover have "hex_encode (drop 10 u) = ?h [24, 26, 28, 30, 32, 34]" using parse_bytes_at_hex [OF p4(2)] by simp
  moreover have "s \<noteq> []" using l by auto
  ultimately show ?thesis
    using h l by (simp add: uuid_string_def take_numeral_nth ascii_lower_hyphen
        \<open>s \<noteq> []\<close>)
qed

lemma uuid_parse_canonical:
  "uuid_parse s = Inr u \<Longrightarrow>
   (length s = 36 \<longrightarrow> uuid_string u = map ascii_lower s) \<and>
   (length s = 38 \<longrightarrow> uuid_string u = map ascii_lower (take 36 (drop 1 s))) \<and>
   (length s = 45 \<longrightarrow> uuid_string u = map ascii_lower (drop 9 s))"
  by (auto simp: uuid_parse_def split: if_splits dest: parse_dashed_canonical)

subsection \<open>Which texts parse, and the errors of the others\<close>

lemma parse_dashed_Inl: "parse_dashed s = Inl e \<Longrightarrow> e = InvalidFormat"
  by (auto simp: parse_dashed_def split: if_splits dest: parse_bytes_at_Inl)

lemma uuid_parse_Inl: "uuid_parse s = Inl e \<Longrightarrow> error_kind e = KParseError"
  by (auto simp: uuid_parse_def split: if_splits dest: parse_dashed_Inl parse_bytes_at_Inl)

lemma dashed_positions:
  "(\<forall>k<36. if k \<in> {8, 13, 18, 23} then s ! k = CHR ''-'' else xvalue (s ! k) \<noteq> None) \<longleftrightarrow>
   s ! 8 = CHR ''-'' \<and> s ! 13 = CHR ''-'' \<and> s ! 18 = CHR ''-'' \<and> s ! 23 = CHR ''-'' \<and>
   list_all (\<lambda>x. xvalue (s ! x) \<noteq> None \<and> xvalue (s ! Suc x) \<noteq> None) dashed_offsets"
  unfolding all_less_list_all
  by (simp add: upt_numeral_snoc dashed_offsets_def take_numeral_nth(3) conj_ac)

lemma parse_dashed_ok:
  "(\<exists>u. parse_dashed s = Inr u) \<longleftrightarrow>
   (\<forall>k<36. if k \<in> {8, 13, 18, 23} then s ! k = CHR ''-'' else xvalue (s ! k) \<noteq> None)"
proof -
  have "(\<exists>u. parse_dashed s = Inr u) \<longleftrightarrow>
     s ! 8 = CHR ''-'' \<and> s ! 13 = CHR ''-'' \<and> s ! 18 = CHR ''-'' \<and> s ! 23 = CHR ''-'' \<and>
     (\<exists>u. parse_bytes_at s dashed_offsets = Inr u)"
    by (auto simp: parse_dashed_def)
  then show ?thesis unfolding dashed_positions parse_bytes_at_ok .
qed

end
