(* ===== verification/Contracts.thy ===== *)
theory Contracts
  imports PrimaryKey UUID_Parse
begin

text \<open>
  The contracts of the two adapters and of the short-form codec glue in detail, beyond
  their round trips: which texts \<open>Scan\<close> accepts and what it stores for them, the error
  kind every failing call reports (spec section 7), and what \<open>Decode\<close> accepts of
  strings of any length.
\<close>

text \<open>
  C30. A string of any length that \<open>Decode\<close> accepts denotes the ID whose short form is
  the string padded in front with \<open>2\<close> (the digit 0) to 22 characters, or, if longer,
  the string without leading characters, which are all \<open>2\<close>. The short form is the
  normal form of every accepted string.
\<close>

theorem Decode_normal_form:
  "Decode s = (i, None) \<Longrightarrow>
   Encode i = drop (length s) (replicate 22 (CHR ''2'')) @ drop (length s - 22) s \<and>
   set (take (length s - 22) s) \<subseteq> {CHR ''2''}"
  by (auto simp: Decode_cases Encode_short_encode split: sum.splits dest: short_encode_normal)

theorem Decode_normal_form_witness:
  "Decode ''Z'' = (fst (Decode ''Z''), None) \<and> Encode (fst (Decode ''Z'')) = ''222222222222222222222Z''"
proof -
  have d: "Decode ''Z'' = (fst (Decode ''Z''), None)"
    by (simp add: Decode_cases short_decode_def alphabet_index_def default_alphabet_def split: sum.split)
  show ?thesis using Decode_normal_form [OF d] d by (simp add: numeral_simps)
qed

text \<open>
  C31. What \<open>Scan\<close> stores for text is what the text denotes: the long form of the
  stored ID is the lower-cased text for the canonical form, the text inside the delimiters
  for the braced form, and the text after the prefix for the \<open>urn:uuid:\<close> form.
\<close>

theorem Scan_canonical:
  "ID_Scan (DvString s) i = (j, None) \<Longrightarrow>
   (length s = 36 \<longrightarrow> uuid_string j = map ascii_lower s) \<and>
   (length s = 38 \<longrightarrow> uuid_string j = map ascii_lower (take 36 (drop 1 s))) \<and>
   (length s = 45 \<longrightarrow> uuid_string j = map ascii_lower (drop 9 s))"
  by (auto simp: ID_Scan_cases split: sum.splits dest!: uuid_parse_canonical)

theorem Scan_canonical_witness:
  "ID_Scan (DvString ''7D444840-9DC0-11D1-B245-5FFDCE74FAD2'') Empty =
     (fst (ID_Scan (DvString ''7D444840-9DC0-11D1-B245-5FFDCE74FAD2'') Empty), None) \<and>
   uuid_string (fst (ID_Scan (DvString ''7D444840-9DC0-11D1-B245-5FFDCE74FAD2'') Empty)) =
     ''7d444840-9dc0-11d1-b245-5ffdce74fad2''"
proof -
  have s: "ID_Scan (DvString ''7D444840-9DC0-11D1-B245-5FFDCE74FAD2'') Empty =
     (fst (ID_Scan (DvString ''7D444840-9DC0-11D1-B245-5FFDCE74FAD2'') Empty), None)"
    by (simp add: ID_Scan_cases uuid_parse_def parse_dashed_def dashed_offsets_def xtob_def xvalue_def)
  show ?thesis using Scan_canonical [OF s] s by (simp add: ascii_lower_def char_of_def bit_0)
qed

text \<open>
  C32. A 36-character text is scanned without error exactly when it has hyphens at
  positions 8, 13, 18 and 23 and a hexadecimal digit of either case everywhere else;
  otherwise \<open>Scan\<close> fails with a format error and keeps the receiver.
\<close>

theorem Scan_dashed_iff:
  "length s = 36 \<Longrightarrow>
   (snd (ID_Scan (DvString s) i) = None \<longleftrightarrow>
      (\<forall>k<36. if k \<in> {8, 13, 18, 23} then s ! k = CHR ''-'' else xvalue (s ! k) \<noteq> None)) \<and>
   (snd (ID_Scan (DvString s) i) \<noteq> None \<longrightarrow> ID_Scan (DvString s) i = (i, Some (ScanFailed InvalidFormat)))"
  unfolding parse_dashed_ok [symmetric]
  by (auto simp: ID_Scan_cases uuid_parse_def split: sum.splits dest: parse_dashed_Inl)

theorem Scan_dashed_iff_witness:
  "length ''7d444840x9dc0-11d1-b245-5ffdce74fad2'' = 36 \<and>
   ID_Scan (DvString ''7d444840x9dc0-11d1-b245-5ffdce74fad2'') Empty = (Empty, Some (ScanFailed InvalidFormat))"
proof -
  have l: "length ''7d444840x9dc0-11d1-b245-5ffdce74fad2'' = 36" by simp
  have nb: "\<not> (\<forall>k<36. if k \<in> {8, 13, 18, 23} then ''7d444840x9dc0-11d1-b245-5ffdce74fad2'' ! k = CHR ''-''
      else xvalue (''7d444840x9dc0-11d1-b245-5ffdce74fad2'' ! k) \<noteq> None)"
  proof
    assume "\<forall>k<36. if k \<in> {8, 13, 18, 23} then ''7d444840x9dc0-11d1-b245-5ffdce74fad2'' ! k = CHR ''-''
      else xvalue (''7d444840x9dc0-11d1-b245-5ffdce74fad2'' ! k) \<noteq> None"
    from this [rule_format, of 8] show False by simp
  qed
  from Scan_dashed_iff [OF l, of Empty] nb
  have "ID_Scan (DvString ''7d444840x9dc0-11d1-b245-5ffdce74fad2'') Empty = (Empty, Some (ScanFailed InvalidFormat))"
    by blast
  with l show ?thesis by (rule conjI)
qed

text \<open>
  C33. The braced form is recognised by its length only: any two characters around
  the canonical text of an ID are accepted as braces and the ID is stored.
\<close>

theorem Scan_braces_unchecked:
  "uuid_wf i \<Longrightarrow> ID_Scan (DvString (a # uuid_string i @ [b])) j = (i, None)"
proof -
  assume wf: "uuid_wf i"
  have "length (uuid_string i) = 36" using wf by (rule length_uuid_string)
  then show ?thesis using parse_dashed_append [OF wf, of "[b]"]
    by (simp add: ID_Scan_cases uuid_parse_def)
qed

theorem Scan_braces_unchecked_witness:
  "uuid_wf Empty \<and> ID_Scan (DvString (CHR ''('' # uuid_string Empty @ [CHR '')''])) Empty = (Empty, None)"
  using Scan_braces_unchecked [OF Empty_wf] Empty_wf by simp

text \<open>
  C34. Every error the adapters return has the kind spec section 7 gives it: for
  \<open>Scan\<close> a parse error for text, an invalid length for a byte buffer and an unsupported
  source type otherwise; for \<open>UnmarshalJSON\<close> a parse error for bytes that are not
  JSON text or that denote a JSON string or \<open>null\<close>, and a type mismatch otherwise.
\<close>

theorem error_kinds:
  "(ID_Scan src i = (j, Some e) \<longrightarrow>
      error_kind e = (case src of DvString s \<Rightarrow> KParseError | DvBytes b \<Rightarrow> KInvalidLength
                                | _ \<Rightarrow> KUnsupportedSourceType)) \<and>
   (ID_UnmarshalJSON b i = (j, Some e) \<longrightarrow>
      error_kind e = (case json_decode b of Inl e' \<Rightarrow> KParseError
        | Inr v \<Rightarrow> if json_kind v \<in> {''string'', ''null''} then KParseError else KTypeMismatch))"
proof (intro conjI impI)
  show "ID_Scan src i = (j, Some e) \<Longrightarrow> error_kind e = (case src of DvString s \<Rightarrow> KParseError
      | DvBytes b \<Rightarrow> KInvalidLength | _ \<Rightarrow> KUnsupportedSourceType)"
    by (cases src) (auto simp: ID_Scan_cases uuid_from_bytes_def split: sum.splits if_splits dest: uuid_parse_Inl)
  show "ID_UnmarshalJSON b i = (j, Some e) \<Longrightarrow>
      error_kind e = (case json_decode b of Inl e' \<Rightarrow> KParseError
        | Inr v \<Rightarrow> if json_kind v \<in> {''string'', ''null''} then KParseError else KTypeMismatch)"
  proof (cases "json_decode b")
    case (Inl e')
    then show "ID_UnmarshalJSON b i = (j, Some e) \<Longrightarrow> ?thesis"
      using json_decode_Inl [OF Inl] by (simp add: ID_UnmarshalJSON_def json_unmarshal_string_def)
  next
    case (Inr v)
    then show "ID_UnmarshalJSON b i = (j, Some e) \<Longrightarrow> ?thesis"
      by (cases v) (auto simp: ID_UnmarshalJSON_def json_unmarshal_string_def Decode_cases
          split: sum.splits dest: short_decode_Inl)
  qed
qed

theorem error_kinds_witness:
  "ID_Scan (DvBytes [1, 2]) Empty = (Empty, Some (InvalidByteCount 2)) \<and> error_kind (InvalidByteCount 2) = KInvalidLength"
proof -
  have s: "ID_Scan (DvBytes [1, 2]) Empty = (Empty, Some (InvalidByteCount 2))"
    by (simp add: ID_Scan_cases uuid_from_bytes_def)
  show ?thesis using error_kinds [of "DvBytes [1, 2]" Empty Empty "InvalidByteCount 2"] s by simp
qed

end
