(* ===== verification/Spec2Isabelle.thy ===== *)
theory Spec2Isabelle
  imports PrimaryKeyTest Contracts
begin

text \<open>
  \<^bold>\<open>A verification development for \<open>blackieops/primarykey\<close>.\<close>

  \<^bold>\<open>The program.\<close> \<open>src/primarykey.go\<close> defines \<open>type ID [16]byte\<close>, a 128-bit
  primary key with three representations: the 16 raw bytes, the canonical long text
  \<open>xxxxxxxx-xxxx-xxxx-xxxx-xxxxxxxxxxxx\<close> of \<open>github.com/google/uuid\<close>, and the
  22-character base-57 short text of \<open>github.com/lithammer/shortuuid\<close>. \<open>String\<close>,
  \<open>Encode\<close>, \<open>Decode\<close> and \<open>MustDecode\<close> convert to and from the short form;
  \<open>UUID\<close> and \<open>Value\<close> give the long form; \<open>Scan\<close> and \<open>Value\<close> are the
  \<open>database/sql\<close> adapter (long form out; text, 16-byte buffers or \<open>nil\<close> in);
  \<open>MarshalJSON\<close> and \<open>UnmarshalJSON\<close> are the \<open>encoding/json\<close> adapter (short form
  as a JSON string, in and out as bytes); \<open>New\<close>, \<open>Empty\<close> and \<open>FromBytes\<close> construct IDs. The package
  keeps no state: its only effects are the receiver writes of \<open>Scan\<close> and
  \<open>UnmarshalJSON\<close> and the draw from the random source in \<open>New\<close>.

  \<^bold>\<open>The theories.\<close>
  \<^item> \<open>Prelude\<close>: the \<open>error\<close> datatype (every error value any part returns, with
    \<open>error_kind\<close> mapping it to the kinds of spec section 7), the \<open>outcome\<close> of a call
    that may panic, and positional numerals: \<open>digits_val\<close> (the multiply-up loop of a
    decoder), \<open>to_digits\<close> (fixed-width digits), \<open>lsb_digits\<close> (the division loop of
    an encoder), big-endian bytes \<open>be_nat\<close>/\<open>nat_to_be\<close>, their round trips, and the
    theorem that lexicographic order of equal-length numerals is numeric order.
  \<^item> \<open>UUID\<close>: the library calls of \<open>google/uuid\<close> (modelled from the spec):
    \<open>uuid_string\<close> (\<open>UUID.String\<close>), \<open>uuid_parse\<close> (\<open>Parse\<close>, with the 36, 38,
    45 and 32 character forms), \<open>uuid_from_bytes\<close>, \<open>uuid_scan\<close> and
    \<open>uuid_new_random\<close>/\<open>uuid_new\<close> (\<open>NewRandom\<close> over the outcome of reading 16
    bytes, \<open>New\<close> panicking on a failed read), and \<open>driver_is_value\<close>
    (\<open>database/sql/driver.IsValue\<close>); lemmas: parsing inverts printing, every parsed UUID has 16 bytes,
    the long form without hyphens is the 32-digit hexadecimal numeral of the bytes.
  \<^item> \<open>UUID_Parse\<close>: the language of \<open>Parse\<close>: digits of either case, the
    lower-cased canonical text of a parsed UUID, the exact condition under which a
    36-character text parses, and the kind of every parse error.
  \<^item> \<open>ShortUUID\<close>: the base-57 codec (modelled from the spec): \<open>short_encode\<close> is
    \<open>numToString\<close> padded to \<open>encoded_length\<close> = 22, \<open>short_decode\<close> is
    \<open>stringToNum\<close> with its three failures; lemmas: the encoder is the fixed-width
    numeral of the bytes, the decoder inverts it, a 22-character string that decodes is
    canonical.
  \<^item> \<open>Json\<close>: JSON values and the compact text \<open>json_text\<close> that \<open>json.Marshal\<close>
    writes, with its HTML-safe string escaping \<open>json_quote\<close>.
  \<^item> \<open>JsonDecode\<close>: the decoder of JSON text (\<open>checkValid\<close> and the decoding of one
    value): \<open>scan_number\<close> (the scanner's number states), \<open>json_str\<close> (string tokens
    with every escape, surrogate pairs and U+FFFD for a lone surrogate),
    \<open>json_value\<close>/\<open>json_elems\<close>/\<open>json_members\<close> (values, arrays and objects with the
    nesting limit 10000), and \<open>json_decode\<close>; lemmas: every step consumes input, the
    fuel always suffices (\<open>json_decode_fuel\<close>), every decoder error is the syntax
    error, and the decoder inverts \<open>json_text\<close> with any white space around it
    (\<open>json_decode_text\<close>, \<open>json_decode_ws\<close>).
  \<^item> \<open>JsonCodec\<close>: \<open>json.Marshal\<close>/\<open>json.Unmarshal\<close> on a Go string (bytes in and
    out; a syntax error or a non-string value leaves the string unchanged, \<open>null\<close> is
    a no-op) and on a pointer to a one-field struct, generic in the field's
    \<open>MarshalJSON\<close>/\<open>UnmarshalJSON\<close> methods (\<open>json_marshal_struct_ptr\<close>,
    \<open>json_unmarshal_struct_ptr\<close>): the interface through which the test's \<open>model\<close>
    reaches the methods of \<open>ID\<close>.
  \<^item> \<open>PrimaryKey\<close>: \<open>src/primarykey.go\<close>, one definition per function or method, under
    its Go name (\<open>ID_\<close> prefix for methods). Pointer receivers are explicit state:
    \<open>ID_Scan src i\<close> and \<open>ID_UnmarshalJSON b i\<close> return the receiver's value after the
    call with the returned error. The ID is a byte list; \<open>uuid_wf\<close> (length 16) stands
    for the type \<open>[16]byte\<close> and is the hypothesis of the properties that hold for
    every ID.
  \<^item> \<open>PrimaryKeyTest\<close>: \<open>src/primarykey_test.go\<close>: the test vector \<open>testUUIDBytes\<close>,
    each Go test as a boolean that holds exactly when the test passes, the struct
    \<open>model\<close> of the JSON tests with \<open>marshal_model\<close>/\<open>unmarshal_model\<close>.
  \<^item> \<open>Contracts\<close>: the detailed contracts of the adapters and of \<open>Decode\<close> (C30 to
    C34).
  \<^item> \<open>Spec2Isabelle\<close> (this theory): the properties that span the components.

  \<^bold>\<open>What is proved.\<close>
  \<^item> Round trips through all three external forms (C1 to C3), the agreement of both text
    forms on one 128-bit number (C4, the refinement of the three representations by the
    abstract value \<open>be_nat\<close>), and order preservation of both text forms (C5, C6).
  \<^item> The short form: its shape (C7, always 22 characters), what \<open>Decode\<close> returns for
    every string over the alphabet (C10: the base-57 value, the empty string and the
    overflow from \<open>2^128\<close> on), the other error paths of \<open>Decode\<close> (C11, C12) and
    \<open>MustDecode\<close> (C20, C21).
  \<^item> The long form: the shape of \<open>Value\<close> (C8) and every branch of \<open>Scan\<close>: \<open>nil\<close>
    (C13), the frame property of \<open>Scan\<close> and \<open>UnmarshalJSON\<close> on errors (C14),
    unsupported types (C15), byte buffers (C16), the braced, URN and plain forms (C17)
    and bad lengths (C18).
  \<^item> The constructors: \<open>FromBytes\<close> (C19); \<open>New\<close>'s version and variant bits and its
    panic when the random read fails (C25).
  \<^item> \<open>UnmarshalJSON\<close> on bytes: it depends only on the JSON value they denote (C9),
    refuses non-JSON bytes and values of the wrong kind (C22) and \<open>null\<close> (C23). The
    types of the adapters' outputs (C24): \<open>Value\<close> returns a driver value,
    \<open>MarshalJSON\<close> returns JSON text denoting a string.
  \<^item> The short-form, long-form and JSON tests pass (C26 to C28), and the JSON round trip
    of a struct holding any ID, with the exact text \<open>json.Marshal\<close> writes (C29).
  \<^item> Decoding strings of any length: the short form is the normal form of every accepted
    string (C30).
  \<^item> What \<open>Scan\<close> accepts and stores: the canonical lower-case text of the stored ID
    (C31), the exact set of accepted 36-character texts (C32), unchecked braces (C33);
    the error kind of every failing \<open>Scan\<close> and \<open>UnmarshalJSON\<close> (C34).

  \<^bold>\<open>Bounds.\<close> No loop of the program needs fuel: every loop runs over a fixed
  16-byte array or over its input string, and the one division loop (\<open>lsb_digits\<close>) is
  a function with a measure; it runs at most 22 rounds on a 128-bit value
  (\<open>lsb_digits_length_bound\<close>, and the padding of C7). The JSON
  decoder's mutual recursion takes fuel; \<open>json_decode\<close> gives \<open>2 * length s + 1\<close>.
  This is enough: a value needs fuel above twice the length of its input, a run of array
  elements or object members one unit more (\<open>json_parse_fuel\<close>), because every step
  consumes at least one character (\<open>json_parse_shorter\<close>); so the decoder never runs
  out, and the out-of-fuel branch of \<open>json_decode\<close> is dead. The constant 22 is the least \<open>k\<close> with
  \<open>2^128 \<le> 57^k\<close> (\<open>encoded_length_least\<close>).

  \<^bold>\<open>Not modelled.\<close> The distribution of the random bytes (\<open>New\<close> takes the outcome
  of the read as an argument); the UTF-8 validation of the JSON encoder and decoder
  (characters are bytes); the re-spelling by \<open>appendCompact\<close> of a method's output that
  is not already compact, and the raw member bytes \<open>json.Unmarshal\<close> passes to a field's
  \<open>UnmarshalJSON\<close> (the model passes \<open>json_text\<close> of the same value; C9 shows the
  ID's method depends only on that value); the decimal interface of
  \<open>driver.IsValue\<close>; the \<open>fmt\<close> formatting of error messages (errors are constructors);
  the \<open>testing\<close> framework (a test is the condition under which it reports no failure);
  sequences of calls by \<open>database/sql\<close> and \<open>encoding/json\<close> on one receiver (the
  package keeps no state beyond the receiver, and every single call is described by the
  properties of its method, C13 to C18 and C22 to C23 with the frame property C14).
  The 16-byte length of an ID is Go's type \<open>[16]byte\<close>, not a property of the code,
  and is taken as the hypothesis \<open>uuid_wf\<close> rather than proved.
  \<open>google/uuid\<close>, \<open>shortuuid\<close> and \<open>encoding/json\<close> are not part of the repository:
  they are modelled from the spec and their documented behaviour, so behaviour of a
  particular library version beyond that (what \<open>uuid.Scan\<close> makes of an empty string or
  of a byte buffer of another length than 16) is not modelled.
\<close>

text \<open>
  C4. The long form (hyphens removed) is the 32-digit hexadecimal numeral and the short
  form the 22-digit base-57 numeral of one number, the big-endian value of the ID's
  bytes: both forms denote the same 128-bit value.
\<close>

theorem cross_form_same_value:
  "uuid_wf i \<Longrightarrow>
     ID_Value i = (DvString (uuid_string i), None) \<and>
     filter (\<lambda>c. c \<noteq> CHR ''-'') (uuid_string i) = map (\<lambda>d. hextable ! d) (to_digits 16 32 (be_nat i)) \<and>
     Encode i = map (\<lambda>d. default_alphabet ! d) (to_digits 57 22 (be_nat i))"
  by (simp add: ID_Value_def ID_UUID_def uuid_string_hex hex_encode_digits uuid_wf_def
      Encode_short_encode short_encode_digits)

theorem cross_form_same_value_witness:
  "uuid_wf Empty \<and> ID_Value Empty = (DvString (uuid_string Empty), None) \<and>
   Encode Empty = map (\<lambda>d. default_alphabet ! d) (to_digits 57 22 (be_nat Empty))"
  using cross_form_same_value [of Empty] Empty_wf by simp

text \<open>
  C5. The short form preserves the byte order of IDs: one ID is lexicographically
  smaller than another exactly when its short form is.
\<close>

theorem Encode_order:
  "uuid_wf x \<Longrightarrow> uuid_wf y \<Longrightarrow> x < y \<longleftrightarrow> Encode x < Encode y"
proof -
  assume wf: "uuid_wf x" "uuid_wf y"
  have "strict_mono_on {..<57} (\<lambda>d. default_alphabet ! d)"
    using strict_mono_on_nth [OF alphabet_strict_sorted] by simp
  moreover have "be_nat x < 57 ^ 22" "be_nat y < 57 ^ 22"
    using be_nat_uuid_bound [OF wf(1)] be_nat_uuid_bound [OF wf(2)] by simp_all
  ultimately have "Encode x < Encode y \<longleftrightarrow> be_nat x < be_nat y"
    using wf by (simp add: Encode_short_encode short_encode_digits to_digits_less_iff)
  also have "\<dots> \<longleftrightarrow> x < y"
    using wf by (simp add: be_nat_less_iff uuid_wf_def)
  finally show ?thesis by simp
qed

theorem Encode_order_witness:
  "uuid_wf Empty \<and> uuid_wf (Empty[15 := 1]) \<and> Encode Empty < Encode (Empty[15 := 1])"
proof -
  have wf: "uuid_wf Empty" "uuid_wf (Empty[15 := 1])" using Empty_wf by (simp_all add: uuid_wf_def)
  have "Empty < Empty[15 := 1]" by (simp add: Empty_def numeral_simps)
  then show ?thesis using Encode_order [OF wf] wf by simp
qed

text \<open>
  C6. The long form that \<open>Value\<close> stores preserves the byte order of IDs as well, so a
  text column sorts the keys in their byte order.
\<close>

theorem Value_order:
  "uuid_wf x \<Longrightarrow> uuid_wf y \<Longrightarrow> ID_Value x = (DvString s, None) \<Longrightarrow>
   ID_Value y = (DvString t, None) \<Longrightarrow> x < y \<longleftrightarrow> s < t"
proof -
  assume wf: "uuid_wf x" "uuid_wf y"
    and v: "ID_Value x = (DvString s, None)" "ID_Value y = (DvString t, None)"
  then have st: "s = uuid_string x" "t = uuid_string y" by (simp_all add: ID_Value_def ID_UUID_def)
  have "strict_mono_on {..<16} (\<lambda>d. hextable ! d)"
    using strict_mono_on_nth [OF hextable_sorted] by simp
  moreover have "be_nat x < 16 ^ 32" "be_nat y < 16 ^ 32"
    using be_nat_uuid_bound [OF wf(1)] be_nat_uuid_bound [OF wf(2)] by simp_all
  ultimately have "hex_encode x < hex_encode y \<longleftrightarrow> be_nat x < be_nat y"
    using wf by (simp add: hex_encode_digits to_digits_less_iff uuid_wf_def)
  also have "\<dots> \<longleftrightarrow> x < y"
    using wf by (simp add: be_nat_less_iff uuid_wf_def)
  finally show ?thesis
    using wf st by (simp add: uuid_string_less_iff uuid_wf_def)
qed

theorem Value_order_witness:
  "uuid_wf Empty \<and> uuid_wf (Empty[15 := 1]) \<and>
   ID_Value Empty = (DvString (uuid_string Empty), None) \<and>
   ID_Value (Empty[15 := 1]) = (DvString (uuid_string (Empty[15 := 1])), None) \<and>
   uuid_string Empty < uuid_string (Empty[15 := 1])"
proof -
  have wf: "uuid_wf Empty" "uuid_wf (Empty[15 := 1])" using Empty_wf by (simp_all add: uuid_wf_def)
  have v: "ID_Value Empty = (DvString (uuid_string Empty), None)"
    "ID_Value (Empty[15 := 1]) = (DvString (uuid_string (Empty[15 := 1])), None)"
    by (simp_all add: ID_Value_def ID_UUID_def)
  have "Empty < Empty[15 := 1]" by (simp add: Empty_def numeral_simps)
  then show ?thesis using Value_order [OF wf v] wf v by simp
qed

end
